theory Spec2Isabelle
  imports Main "HOL-Library.Sublist"
begin

section \<open>Strings and the library\<close>

text \<open>
  A Python \<open>str\<close> is modelled by the list of the bytes of its UTF-8 encoding
  (\<open>string\<close> is \<open>char list\<close>, a \<open>char\<close> is one byte). On this encoding the regular
  expressions of the source, \<open>startswith\<close> and \<open>in\<close> are what they are on the code
  points. For the test \<open>"big" in s.lower()\<close> it is enough to lower the ASCII letters: no
  other character lowers to a sequence holding a \<open>b\<close>, \<open>i\<close> or \<open>g\<close> next to its
  neighbour.
\<close>

definition lower_char :: "char \<Rightarrow> char" where
  "lower_char c =
     (let n = (of_char c :: nat) in if 65 \<le> n \<and> n \<le> 90 then char_of (n + 32) else c)"

definition lower :: "string \<Rightarrow> string" where
  "lower s = map lower_char s"

definition is_ascii_letter :: "char \<Rightarrow> bool" where
  "is_ascii_letter c =
     (let n = (of_char c :: nat) in (65 \<le> n \<and> n \<le> 90) \<or> (97 \<le> n \<and> n \<le> 122))"

definition is_digit :: "char \<Rightarrow> bool" where
  "is_digit c = (let n = (of_char c :: nat) in 48 \<le> n \<and> n \<le> 57)"

text \<open>
  A \<open>datetime\<close> is represented by its distance from \<open>datetime.min\<close>, so that
  \<open>datetime.min\<close> is \<open>0\<close> and datetimes compare as these numbers do.
\<close>

type_synonym datetime = nat

definition datetime_min :: datetime where
  "datetime_min = 0"

text \<open>
  The library functions that the source calls on text and that depend on the Unicode
  tables or the locale are parameters of the model: \<open>py_upper s\<close> is \<open>s.upper()\<close>,
  \<open>py_split s\<close> is \<open>s.split()\<close>, and \<open>py_strptime s\<close> is
  \<open>datetime.datetime.strptime(s, "%B %d, %Y")\<close>, with \<open>None\<close> where the call raises.
\<close>

record library =
  py_upper :: "string \<Rightarrow> string"
  py_split :: "string \<Rightarrow> string list"
  py_strptime :: "string \<Rightarrow> datetime option"

section \<open>The URL builder\<close>

text \<open>
  \<open>urllib.parse.quote(s)\<close> with its default \<open>safe='/'\<close>: the string is encoded as
  UTF-8; letters, digits and the characters \<open>_.-~\<close> are never quoted, \<open>/\<close> is safe by
  default, and every other byte becomes \<open>%\<close> followed by its two upper-case hexadecimal
  digits.
\<close>

definition always_safe :: "char \<Rightarrow> bool" where
  "always_safe c = (is_ascii_letter c \<or> is_digit c \<or> c \<in> set ''_.-~'')"

definition hex_digit :: "nat \<Rightarrow> char" where
  "hex_digit n = ''0123456789ABCDEF'' ! (n mod 16)"

definition quote_char :: "char \<Rightarrow> string" where
  "quote_char c =
     (if always_safe c \<or> c = CHR ''/'' then [c]
      else [CHR ''%'', hex_digit ((of_char c :: nat) div 16), hex_digit (of_char c :: nat)])"

definition quote :: "string \<Rightarrow> string" where
  "quote s = concat (map quote_char s)"

definition base_url :: string where
  "base_url = ''https://raw.githubusercontent.com/hoofpilot/models/master/recompiled/''"

definition make_model_url :: "string \<Rightarrow> string \<Rightarrow> string \<Rightarrow> string" where
  "make_model_url recompiled_dir folder file_name =
     (let base = base_url @ recompiled_dir @ ''/'';
          safe_folder = quote folder;
          safe_file = quote file_name
      in base @ safe_folder @ ''/'' @ safe_file)"

section \<open>The data model\<close>

text \<open>
  The manifest and the descriptors are JSON documents. They are modelled with the types
  the tool expects of them; a key that the code reads with \<open>.get\<close>, tests with
  \<open>in\<close>, or whose absence raises \<open>KeyError\<close>, is an \<open>option\<close> (\<open>None\<close>: the
  key is absent). \<open>build_time\<close> may also hold JSON \<open>null\<close> (\<open>Some None\<close>), which is
  what \<open>meta.get("build_time")\<close> stores when the descriptor has no such key.
\<close>

datatype error =
    KeyError
  | IndexError
  | FileNotFoundError
  | PermissionError
  | JSONDecodeError

record download_uri =
  sha256 :: string
  url :: "string option"

record file_entry =
  file_name :: string
  download_uri :: download_uri

record model =
  model_type :: string
  artifact :: file_entry
  metadata :: file_entry

record overrides =
  folder :: string
  lat :: string
  long :: string

record "bundle" =
  short_name :: "string option"
  display_name :: "string option"
  is_20hz :: "bool option"
  ref :: "string option"
  environment :: "string option"
  runner :: "string option"
  index :: "int option"
  minimum_selector_version :: "string option"
  generation :: "string option"
  build_time :: "string option option"
  overrides :: "overrides option"
  models :: "model list option"

record manifest =
  tinygrad_ref :: "string option"
  bundles :: "bundle list option"

text \<open>A \<open>metadata.json\<close> descriptor, the \<open>meta\<close> of the source.\<close>

record descriptor =
  meta_ref :: "string option"
  meta_short_name :: "string option"
  meta_display_name :: "string option"
  meta_is_20hz :: "bool option"
  meta_build_time :: "string option option"
  meta_models :: "model list option"

text \<open>
  What \<open>open\<close> followed by \<open>json.load\<close> finds at a path: no file, a file that cannot
  be read, text that is not JSON, or a document.
\<close>

datatype 'a json_file = Absent | Unreadable | Malformed | Json 'a

fun load :: "'a json_file \<Rightarrow> error + 'a" where
  "load Absent = Inl FileNotFoundError"
| "load Unreadable = Inl PermissionError"
| "load Malformed = Inl JSONDecodeError"
| "load (Json v) = Inr v"

text \<open>
  The command line. \<open>recompiled_dir_name\<close> is the basename of \<open>--recompiled-dir\<close>;
  the manifest path and the directory tree are the \<open>world\<close> below.
\<close>

record args =
  recompiled_dir_name :: string
  arg_model_folder :: "string option"
  arg_lat :: string
  arg_long :: string
  arg_generation :: "string option"
  arg_version :: "string option"
  arg_set_min_version :: "string option"
  arg_sort_by_date :: bool
  arg_tinygrad_ref :: "string option"

text \<open>
  The files the run reads: the manifest at \<open>--json-path\<close>, and for every
  \<open>metadata.json\<close> that \<open>find_metadata_files\<close> yields, in the order of the walk, the
  basename of its directory and what is found in it.
\<close>

record world =
  manifest_file :: "manifest json_file"
  metadata_files :: "(string \<times> descriptor json_file) list"

section \<open>Updating the models of a bundle\<close>

definition is_big :: "model \<Rightarrow> bool" where
  "is_big m =
     (sublist ''big'' (lower (file_name (artifact m)))
      \<or> sublist ''big'' (lower (file_name (metadata m))))"

definition filter_models :: "model list \<Rightarrow> model list" where
  "filter_models ms = filter (\<lambda>m. \<not> is_big m) ms"

text \<open>The six assignments of the loop body, with \<open>meta_model\<close> the replacement source.\<close>

definition overwrite_model :: "string \<Rightarrow> string \<Rightarrow> model \<Rightarrow> model \<Rightarrow> model" where
  "overwrite_model recompiled_dir fld meta_model m =
     m\<lparr>artifact :=
         \<lparr>file_name = file_name (artifact meta_model),
          download_uri =
            \<lparr>sha256 = sha256 (download_uri (artifact meta_model)),
             url = Some (make_model_url recompiled_dir fld (file_name (artifact meta_model)))\<rparr>\<rparr>,
       metadata :=
         \<lparr>file_name = file_name (metadata meta_model),
          download_uri =
            \<lparr>sha256 = sha256 (download_uri (metadata meta_model)),
             url = Some (make_model_url recompiled_dir fld (file_name (metadata meta_model)))\<rparr>\<rparr>\<rparr>"

definition update_model :: "model list \<Rightarrow> string \<Rightarrow> string \<Rightarrow> model \<Rightarrow> model" where
  "update_model filtered_meta_models fld recompiled_dir m =
     (case find (\<lambda>mm. model_type mm = model_type m) filtered_meta_models of
        None \<Rightarrow> m
      | Some meta_model \<Rightarrow> overwrite_model recompiled_dir fld meta_model m)"

text \<open>
  \<open>update_bundle_models\<close> mutates the model objects of the bundle in place. For a bundle
  created in the same iteration these are the very objects of \<open>meta["models"]\<close>; the
  writes then reach the candidates too, but a candidate that is the first of its type is
  only assigned its own \<open>file_name\<close> and \<open>sha256\<close> (and a \<open>url\<close>, which is never read),
  and a later candidate of the same type is never a replacement source. So the result is
  the one of the pure function below.
\<close>

definition update_bundle_models :: "bundle \<Rightarrow> model list \<Rightarrow> string \<Rightarrow> string \<Rightarrow> bundle" where
  "update_bundle_models b meta_model_list fld recompiled_dir =
     (let filtered_meta_models = filter_models meta_model_list in
      case models b of
        None \<Rightarrow> b
      | Some ms \<Rightarrow>
          b\<lparr>models := Some (map (update_model filtered_meta_models fld recompiled_dir) ms)\<rparr>)"

section \<open>Generation and selector version of a new bundle\<close>

text \<open>\<open>re.match(r"([A-Za-z]+)", short_name)\<close>, then the fallback to the whole name.\<close>

definition name_prefix :: "string \<Rightarrow> string" where
  "name_prefix sn =
     (let p = takeWhile is_ascii_letter sn in if p = [] then sn else p)"

text \<open>\<open>b.get("index", 0)\<close>.\<close>

definition index_or_0 :: "bundle \<Rightarrow> int" where
  "index_or_0 b = (case index b of None \<Rightarrow> 0 | Some i \<Rightarrow> i)"

text \<open>\<open>max(xs, key=k)\<close> on a non-empty list: the first element whose key is greatest.\<close>

fun max_by :: "('a \<Rightarrow> int) \<Rightarrow> 'a \<Rightarrow> 'a list \<Rightarrow> 'a" where
  "max_by k x [] = x"
| "max_by k x (y # ys) = max_by k (if k y > k x then y else x) ys"

definition is_candidate :: "string \<Rightarrow> bundle \<Rightarrow> bool" where
  "is_candidate p b =
     (prefix p (the (short_name b)) \<and> generation b \<noteq> None
      \<and> minimum_selector_version b \<noteq> None)"

definition get_generation_and_selector ::
  "string \<Rightarrow> bundle list \<Rightarrow> error + (string \<times> string)" where
  "get_generation_and_selector sn bs =
     (let p = name_prefix sn in
      if \<exists>b \<in> set bs. short_name b = None then Inl KeyError
      else
        case filter (is_candidate p) bs of
          [] \<Rightarrow> Inr (''12'', ''12'')
        | c # cs \<Rightarrow>
            (let latest = max_by index_or_0 c cs
             in Inr (the (generation latest), the (minimum_selector_version latest))))"

section \<open>Dates in display names\<close>

text \<open>
  \<open>re.search(r'\(([^)]+)\)', display_name)\<close>: the leftmost position at which an opening
  parenthesis is followed by one or more characters other than a closing parenthesis and
  then by a closing parenthesis; the group is the text between the two.
\<close>

fun extract_date_from_display_name :: "string \<Rightarrow> string" where
  "extract_date_from_display_name [] = []"
| "extract_date_from_display_name (c # cs) =
     (if c = CHR ''('' \<and> takeWhile (\<lambda>x. x \<noteq> CHR '')'') cs \<noteq> []
         \<and> dropWhile (\<lambda>x. x \<noteq> CHR '')'') cs \<noteq> []
      then takeWhile (\<lambda>x. x \<noteq> CHR '')'') cs
      else extract_date_from_display_name cs)"

text \<open>
  Lines 63 to 69, with the library call \<open>strptime\<close> as a parameter: \<open>py_strptime\<close> of
  the library in a run.
\<close>

definition parse_date :: "(string \<Rightarrow> datetime option) \<Rightarrow> string \<Rightarrow> datetime" where
  "parse_date strptime date_str =
     (case strptime date_str of Some d \<Rightarrow> d | None \<Rightarrow> datetime_min)"

definition bundle_sort_key :: "(string \<Rightarrow> datetime option) \<Rightarrow> bundle \<Rightarrow> datetime" where
  "bundle_sort_key strptime b =
     (let date_str =
        extract_date_from_display_name (case display_name b of None \<Rightarrow> [] | Some s \<Rightarrow> s)
      in parse_date strptime date_str)"

text \<open>Lines 147 to 150: the stable sort, then the indexes from 0.\<close>

definition sort_by_date :: "(string \<Rightarrow> datetime option) \<Rightarrow> bundle list \<Rightarrow> bundle list" where
  "sort_by_date strptime bs =
     map (\<lambda>(idx, b). b\<lparr>index := Some (int idx)\<rparr>)
       (enumerate 0 (sort_key (bundle_sort_key strptime) bs))"

section \<open>The merge\<close>

text \<open>
  The in-memory manifest during the loop. \<open>ref_to_bundle\<close> holds references to the
  bundle objects of the list; a reference is the position of the object in the list,
  which does not change before the sort.
\<close>

record merge_state =
  json_bundles :: "bundle list"
  ref_to_bundle :: "string \<rightharpoonup> nat"

text \<open>The dictionary comprehension of line 92: a later bundle replaces an earlier one.\<close>

fun build_ref_to_bundle ::
  "nat \<Rightarrow> bundle list \<Rightarrow> (string \<rightharpoonup> nat) \<Rightarrow> error + (string \<rightharpoonup> nat)" where
  "build_ref_to_bundle i [] m = Inr m"
| "build_ref_to_bundle i (b # bs) m =
     (case ref b of
        None \<Rightarrow> Inl KeyError
      | Some r \<Rightarrow> build_ref_to_bundle (Suc i) bs (m(r \<mapsto> i)))"

text \<open>Line 103; \<open>or\<close> takes the right operand also when \<open>--model-folder\<close> is empty.\<close>

definition new_folder_key :: "library \<Rightarrow> args \<Rightarrow> string \<Rightarrow> error + string" where
  "new_folder_key lib a sn =
     (if arg_model_folder a \<noteq> None \<and> arg_model_folder a \<noteq> Some []
      then Inr (the (arg_model_folder a))
      else case py_split lib sn of
             [] \<Rightarrow> Inl IndexError
           | t # _ \<Rightarrow> Inr (py_upper lib t @ '' Models''))"

text \<open>
  Line 104. An \<open>index\<close> is an integer in this model, so the \<open>isinstance\<close> test holds
  of every bundle.
\<close>

definition new_index :: "bundle list \<Rightarrow> int" where
  "new_index bs =
     (case map index_or_0 bs of [] \<Rightarrow> 0 | x # xs \<Rightarrow> fold max xs x) + 1"

text \<open>Lines 102 to 127: the bundle that is appended for a ref not yet in the manifest.\<close>

definition new_bundle ::
  "library \<Rightarrow> args \<Rightarrow> bundle list \<Rightarrow> descriptor \<Rightarrow> string \<Rightarrow> string \<Rightarrow> error + bundle" where
  "new_bundle lib a bs meta r sn =
     (case new_folder_key lib a sn of
        Inl e \<Rightarrow> Inl e
      | Inr folder_key \<Rightarrow>
          (case get_generation_and_selector sn bs of
             Inl e \<Rightarrow> Inl e
           | Inr (fallback_generation, fallback_version) \<Rightarrow>
               (case meta_models meta of
                  None \<Rightarrow> Inl KeyError
                | Some ms \<Rightarrow>
                    Inr \<lparr>short_name = Some sn,
                         display_name =
                           Some (case meta_display_name meta of None \<Rightarrow> sn | Some v \<Rightarrow> v),
                         is_20hz =
                           Some (case meta_is_20hz meta of None \<Rightarrow> False | Some v \<Rightarrow> v),
                         ref = Some r,
                         environment = Some ''development'',
                         runner = Some ''tinygrad'',
                         index = Some (new_index bs),
                         minimum_selector_version =
                           Some (case arg_version a of
                                   None \<Rightarrow> fallback_version | Some v \<Rightarrow> v),
                         generation =
                           Some (case arg_generation a of
                                   None \<Rightarrow> fallback_generation | Some v \<Rightarrow> v),
                         build_time =
                           Some (case meta_build_time meta of None \<Rightarrow> None | Some v \<Rightarrow> v),
                         overrides =
                           Some \<lparr>folder = folder_key, lat = arg_lat a, long = arg_long a\<rparr>,
                         models = Some (filter_models ms)\<rparr>)))"

text \<open>
  Lines 131 to 136 on the bundle \<open>ref_to_bundle[ref]\<close>. The defaults
  \<open>bundle["display_name"]\<close> and \<open>bundle["is_20hz"]\<close> are evaluated before \<open>meta.get\<close>
  is called, so they raise when the bundle lacks the key.
\<close>

definition update_bundle ::
  "library \<Rightarrow> args \<Rightarrow> descriptor \<Rightarrow> string \<Rightarrow> bundle \<Rightarrow> error + bundle" where
  "update_bundle lib a meta fld b =
     (case short_name b of
        None \<Rightarrow> Inl KeyError
      | Some sn \<Rightarrow>
          (case meta_models meta of
             None \<Rightarrow> Inl KeyError
           | Some ms \<Rightarrow>
               (case display_name b of
                  None \<Rightarrow> Inl KeyError
                | Some dn \<Rightarrow>
                    (case is_20hz b of
                       None \<Rightarrow> Inl KeyError
                     | Some hz \<Rightarrow>
                         Inr ((update_bundle_models
                                 (b\<lparr>short_name := Some (py_upper lib sn)\<rparr>)
                                 ms fld (recompiled_dir_name a))
                              \<lparr>display_name :=
                                 Some (case meta_display_name meta of
                                         None \<Rightarrow> dn | Some v \<Rightarrow> v),
                               is_20hz :=
                                 Some (case meta_is_20hz meta of None \<Rightarrow> hz | Some v \<Rightarrow> v),
                               build_time :=
                                 Some (case meta_build_time meta of
                                         None \<Rightarrow>
                                           (case build_time b of None \<Rightarrow> None | Some v \<Rightarrow> v)
                                       | Some v \<Rightarrow> v)\<rparr>)))))"

text \<open>Lines 101 to 129: the bundle is created when the ref is not in \<open>ref_to_bundle\<close>.\<close>

definition add_if_new ::
  "library \<Rightarrow> args \<Rightarrow> descriptor \<Rightarrow> string \<Rightarrow> string \<Rightarrow> merge_state \<Rightarrow> error + merge_state" where
  "add_if_new lib a meta r sn st =
     (if ref_to_bundle st r = None
      then case new_bundle lib a (json_bundles st) meta r sn of
             Inl e \<Rightarrow> Inl e
           | Inr nb \<Rightarrow>
               Inr \<lparr>json_bundles = json_bundles st @ [nb],
                    ref_to_bundle = (ref_to_bundle st)(r \<mapsto> length (json_bundles st))\<rparr>
      else Inr st)"

text \<open>One iteration of the loop of line 94, for one \<open>metadata.json\<close>.\<close>

definition process_metadata ::
  "library \<Rightarrow> args \<Rightarrow> merge_state \<Rightarrow> string \<times> descriptor json_file \<Rightarrow> error + merge_state" where
  "process_metadata lib a st mf =
     (case load (snd mf) of
        Inl e \<Rightarrow> Inl e
      | Inr meta \<Rightarrow>
          (case meta_ref meta of
             None \<Rightarrow> Inl KeyError
           | Some r \<Rightarrow>
               (let fld = fst mf;
                    sn = py_upper lib
                           (case meta_short_name meta of None \<Rightarrow> fld | Some s \<Rightarrow> s)
                in case add_if_new lib a meta r sn st of
                     Inl e \<Rightarrow> Inl e
                   | Inr st1 \<Rightarrow>
                       (case ref_to_bundle st1 r of
                          None \<Rightarrow> Inl KeyError
                        | Some i \<Rightarrow>
                            (case update_bundle lib a meta fld (json_bundles st1 ! i) of
                               Inl e \<Rightarrow> Inl e
                             | Inr b \<Rightarrow>
                                 Inr (st1\<lparr>json_bundles := (json_bundles st1)[i := b]\<rparr>))))))"

fun process_all ::
  "library \<Rightarrow> args \<Rightarrow> merge_state \<Rightarrow> (string \<times> descriptor json_file) list \<Rightarrow> error + merge_state" where
  "process_all lib a st [] = Inr st"
| "process_all lib a st (mf # mfs) =
     (case process_metadata lib a st mf of
        Inl e \<Rightarrow> Inl e
      | Inr st1 \<Rightarrow> process_all lib a st1 mfs)"

text \<open>Lines 139 to 141.\<close>

definition set_min_version :: "args \<Rightarrow> bundle list \<Rightarrow> bundle list" where
  "set_min_version a bs =
     (case arg_set_min_version a of
        None \<Rightarrow> bs
      | Some v \<Rightarrow> map (\<lambda>b. b\<lparr>minimum_selector_version := Some v\<rparr>) bs)"

text \<open>Lines 92 to 137: the dictionary, then the loop over the descriptors.\<close>

definition merge ::
  "library \<Rightarrow> args \<Rightarrow> bundle list \<Rightarrow> (string \<times> descriptor json_file) list \<Rightarrow> error + bundle list" where
  "merge lib a bs mfs =
     (case build_ref_to_bundle 0 bs Map.empty of
        Inl e \<Rightarrow> Inl e
      | Inr m \<Rightarrow>
          (case process_all lib a \<lparr>json_bundles = bs, ref_to_bundle = m\<rparr> mfs of
             Inl e \<Rightarrow> Inl e
           | Inr st \<Rightarrow> Inr (json_bundles st)))"

text \<open>Lines 139 to 150.\<close>

definition post_process ::
  "(string \<Rightarrow> datetime option) \<Rightarrow> args \<Rightarrow> bundle list \<Rightarrow> bundle list" where
  "post_process strptime a bs =
     (let bs1 = set_min_version a bs
      in if arg_sort_by_date a then sort_by_date strptime bs1 else bs1)"

text \<open>
  \<open>main\<close> up to line 151: the manifest that is handed to the writer, or the error that
  ends the run before the manifest file is opened for writing.
\<close>

definition main :: "library \<Rightarrow> args \<Rightarrow> world \<Rightarrow> error + manifest" where
  "main lib a w =
     (case load (manifest_file w) of
        Inl e \<Rightarrow> Inl e
      | Inr driving_models_json \<Rightarrow>
          (let j = (case arg_tinygrad_ref a of
                      None \<Rightarrow> driving_models_json
                    | Some t \<Rightarrow> driving_models_json\<lparr>tinygrad_ref := Some t\<rparr>)
           in case bundles j of
                None \<Rightarrow> Inl KeyError
              | Some bs \<Rightarrow>
                  (case merge lib a bs (metadata_files w) of
                     Inl e \<Rightarrow> Inl e
                   | Inr bs' \<Rightarrow>
                       Inr (j\<lparr>bundles := Some (post_process (py_strptime lib) a bs')\<rparr>))))"



section \<open>Notions used in the statements\<close>

text \<open>The reserved characters of RFC 3986: the general and the sub-delimiters.\<close>

definition reserved :: "char \<Rightarrow> bool" where
  "reserved c = (c \<in> set '':/?#[]@!$&()*+,;='' \<or> c = CHR 0x27)"

text \<open>
  A match of the pattern of \<open>extract_date_from_display_name\<close> in \<open>s\<close>: after the
  prefix \<open>pre\<close> come an opening parenthesis, the non-empty \<open>body\<close> without a closing
  parenthesis, and a closing parenthesis.
\<close>

definition paren_match :: "string \<Rightarrow> string \<Rightarrow> string \<Rightarrow> bool" where
  "paren_match s pre body =
     (body \<noteq> [] \<and> CHR '')'' \<notin> set body \<and> prefix (pre @ CHR ''('' # body @ [CHR '')'']) s)"

text \<open>
  The reading of the specification, "the text between the last pair of parentheses":
  the text before the last closing parenthesis, from the opening parenthesis nearest to
  it; empty when there is no such pair.
\<close>

definition last_parenthesized :: "string \<Rightarrow> string" where
  "last_parenthesized s =
     (case dropWhile (\<lambda>x. x \<noteq> CHR '')'') (rev s) of
        [] \<Rightarrow> []
      | _ # t \<Rightarrow> if CHR ''('' \<in> set t then rev (takeWhile (\<lambda>x. x \<noteq> CHR ''('') t) else [])"

text \<open>
  The references of \<open>ref_to_bundle\<close> are positions of the list, at bundles with that ref.
\<close>

definition refs_valid :: "merge_state \<Rightarrow> bool" where
  "refs_valid st =
     (\<forall>r i. ref_to_bundle st r = Some i \<longrightarrow>
        i < length (json_bundles st) \<and> ref (json_bundles st ! i) = Some r)"

text \<open>
  Moreover every bundle of the list has a ref, and \<open>ref_to_bundle\<close> holds for it the last
  position with that ref: what the dictionary comprehension builds, and what appending
  a bundle for a ref that is not in the dictionary keeps.
\<close>

definition refs_canonical :: "merge_state \<Rightarrow> bool" where
  "refs_canonical st =
     (refs_valid st \<and>
      (\<forall>i < length (json_bundles st).
         \<exists>r j. ref (json_bundles st ! i) = Some r \<and> ref_to_bundle st r = Some j \<and> i \<le> j))"

section \<open>Example data\<close>

text \<open>
  On text of ASCII characters \<open>str.upper\<close> and \<open>str.split()\<close> are the two functions
  below. They and a stand-in for \<open>strptime\<close> on three dates (as days since
  \<open>datetime.min\<close>, which is January 1 of the year 1) are the library of the examples,
  whose texts are ASCII.
\<close>

definition ascii_upper_char :: "char \<Rightarrow> char" where
  "ascii_upper_char c =
     (let n = (of_char c :: nat) in if 97 \<le> n \<and> n \<le> 122 then char_of (n - 32) else c)"

definition ascii_upper :: "string \<Rightarrow> string" where
  "ascii_upper s = map ascii_upper_char s"

definition ascii_space :: "char \<Rightarrow> bool" where
  "ascii_space c =
     (let n = (of_char c :: nat) in (9 \<le> n \<and> n \<le> 13) \<or> (28 \<le> n \<and> n \<le> 32))"

function ascii_split :: "string \<Rightarrow> string list" where
  "ascii_split s =
     (let t = dropWhile ascii_space s in
      if t = [] then []
      else takeWhile (\<lambda>c. \<not> ascii_space c) t
             # ascii_split (dropWhile (\<lambda>c. \<not> ascii_space c) t))"
  by pat_completeness auto
termination
proof (relation "measure length")
  show "wf (measure length)" by simp
next
  fix s t :: string
  assume t: "t = dropWhile ascii_space s" and ne: "t \<noteq> []"
  have "\<not> ascii_space (hd t)"
    using t ne hd_dropWhile by metis
  then have "length (dropWhile (\<lambda>c. \<not> ascii_space c) t) < length t"
    using ne by (cases t) (auto intro: le_imp_less_Suc length_dropWhile_le)
  also have "length t \<le> length s"
    using t by (simp add: length_dropWhile_le)
  finally show "(dropWhile (\<lambda>c. \<not> ascii_space c) t, s) \<in> measure length"
    by simp
qed

declare ascii_split.simps [simp del]

definition example_strptime :: "string \<Rightarrow> datetime option" where
  "example_strptime s =
     (if s = ''June 1, 2024'' then Some 739037
      else if s = ''May 1, 2024'' then Some 739006
      else if s = ''January 1, 0001'' then Some 0
      else None)"

definition example_library :: library where
  "example_library =
     \<lparr>py_upper = ascii_upper, py_split = ascii_split, py_strptime = example_strptime\<rparr>"

definition example_args :: args where
  "example_args =
     \<lparr>recompiled_dir_name = ''recompiled3'', arg_model_folder = None,
      arg_lat = ''.0'', arg_long = ''.3'', arg_generation = None, arg_version = None,
      arg_set_min_version = None, arg_sort_by_date = False, arg_tinygrad_ref = None\<rparr>"

definition example_model :: "string \<Rightarrow> string \<Rightarrow> string \<Rightarrow> model" where
  "example_model t f h =
     \<lparr>model_type = t,
      artifact = \<lparr>file_name = f @ ''.pkl'', download_uri = \<lparr>sha256 = h, url = None\<rparr>\<rparr>,
      metadata =
        \<lparr>file_name = f @ ''_metadata.pkl'', download_uri = \<lparr>sha256 = h, url = None\<rparr>\<rparr>\<rparr>"

definition example_bundle ::
  "string \<Rightarrow> string \<Rightarrow> string \<Rightarrow> string \<Rightarrow> int \<Rightarrow> model list \<Rightarrow> bundle" where
  "example_bundle sn dn r g i ms =
     \<lparr>short_name = Some sn, display_name = Some dn, is_20hz = Some True, ref = Some r,
      environment = Some ''development'', runner = Some ''tinygrad'', index = Some i,
      minimum_selector_version = Some g, generation = Some g, build_time = None,
      overrides = None, models = Some ms\<rparr>"

definition example_descriptor :: "string \<Rightarrow> string \<Rightarrow> model list \<Rightarrow> descriptor" where
  "example_descriptor r sn ms =
     \<lparr>meta_ref = Some r, meta_short_name = Some sn, meta_display_name = None,
      meta_is_20hz = None, meta_build_time = None, meta_models = Some ms\<rparr>"

text \<open>
  How the list \<open>bs\<close> of a later moment stands to the list \<open>bs0\<close> of an earlier one:
  the bundles of \<open>bs0\<close> are still at their positions, each related by \<open>R\<close> to what it
  was, and the bundles after them, which were appended since, satisfy \<open>N\<close>.
\<close>

definition grown_from ::
  "(bundle \<Rightarrow> bundle \<Rightarrow> bool) \<Rightarrow> (bundle \<Rightarrow> bool) \<Rightarrow> bundle list \<Rightarrow> bundle list \<Rightarrow> bool" where
  "grown_from R N bs0 bs =
     (list_all2 R bs0 (take (length bs0) bs) \<and> list_all N (drop (length bs0) bs))"

text \<open>
  A manifest with the bundles RAV1 and RAV2 of the specification's example, and a
  directory tree with a descriptor for a new ref and one for the ref of RAV1.
\<close>

definition example_manifest :: manifest where
  "example_manifest =
     \<lparr>tinygrad_ref = Some ''abc'',
      bundles = Some
        [example_bundle ''rav1'' ''Rav 1 (June 1, 2024)'' ''r1'' ''11'' 2
           [example_model ''vision'' ''v0'' ''h4'', example_model ''policy'' ''p0'' ''h5''],
         example_bundle ''RAV2'' ''Rav 2 (May 1, 2024)'' ''r2'' ''12'' 5 []]\<rparr>"

definition example_world :: world where
  "example_world =
     \<lparr>manifest_file = Json example_manifest,
      metadata_files =
        [(''rav3 dir'', Json (example_descriptor ''r3'' ''rav3''
            [example_model ''policy'' ''Big_policy'' ''h0'',
             example_model ''policy'' ''p1'' ''h1''])),
         (''rav1 dir'', Json (example_descriptor ''r1'' ''rav1''
            [example_model ''policy'' ''Big_policy'' ''h0'',
             example_model ''policy'' ''p1'' ''h1'',
             example_model ''policy'' ''p2'' ''h2'',
             example_model ''extra'' ''e'' ''h3'']))]\<rparr>"

text \<open>
  The bundle \<open>b\<close> has the ref and the model slots of \<open>b0\<close>, and a big model of \<open>b\<close> is
  the model that \<open>b0\<close> has in the same slot: nothing big has been written into it.
\<close>

definition no_big_written :: "bundle \<Rightarrow> bundle \<Rightarrow> bool" where
  "no_big_written b0 b =
     (ref b = ref b0 \<and>
      (case models b0 of
         None \<Rightarrow> models b = None
       | Some ms0 \<Rightarrow>
           (case models b of
              None \<Rightarrow> False
            | Some ms \<Rightarrow> list_all2 (\<lambda>m0 m. is_big m \<longrightarrow> m = m0) ms0 ms)))"

definition all_not_big :: "bundle \<Rightarrow> bool" where
  "all_not_big b =
     (case models b of None \<Rightarrow> False | Some ms \<Rightarrow> list_all (\<lambda>m. \<not> is_big m) ms)"

text \<open>A name is upper case when \<open>str.upper\<close> leaves it as it is.\<close>

definition is_upper_case :: "library \<Rightarrow> string \<Rightarrow> bool" where
  "is_upper_case lib s = (py_upper lib s = s)"

definition short_name_upper :: "library \<Rightarrow> bundle \<Rightarrow> bool" where
  "short_name_upper lib b =
     (case short_name b of None \<Rightarrow> False | Some sn \<Rightarrow> is_upper_case lib sn)"

text \<open>
  \<open>str.upper\<close> maps a character at a time, and the upper-case form of a character is
  its own upper-case form: applying \<open>str.upper\<close> twice is applying it once.
\<close>

definition upper_idempotent :: "library \<Rightarrow> bool" where
  "upper_idempotent lib = (\<forall>s. py_upper lib (py_upper lib s) = py_upper lib s)"

text \<open>The refs of the descriptors that a run finds.\<close>

fun descriptor_refs :: "(string \<times> descriptor json_file) list \<Rightarrow> string option set" where
  "descriptor_refs [] = {}"
| "descriptor_refs ((fld, Json meta) # mfs) = insert (meta_ref meta) (descriptor_refs mfs)"
| "descriptor_refs (_ # mfs) = descriptor_refs mfs"

text \<open>
  The reading of the specification for the generation and selector version of a new
  bundle: the prefix is taken from the \<open>short_name\<close> of the descriptor as it is written
  there.
\<close>

definition claimed_generation_and_selector :: "descriptor \<Rightarrow> bundle list \<Rightarrow> string \<times> string" where
  "claimed_generation_and_selector meta bs =
     (case filter (is_candidate (name_prefix (the (meta_short_name meta)))) bs of
        [] \<Rightarrow> (''12'', ''12'')
      | c # cs \<Rightarrow>
          (let latest = max_by index_or_0 c cs
           in (the (generation latest), the (minimum_selector_version latest))))"

definition example_rav1 :: "bundle" where
  "example_rav1 = example_bundle ''RAV1'' ''Rav 1 (June 1, 2024)'' ''r1'' ''11'' 2 []"

definition example_rav2 :: "bundle" where
  "example_rav2 = example_bundle ''RAV2'' ''Rav 2 (May 1, 2024)'' ''r2'' ''12'' 5 []"

definition example_rav0 :: "bundle" where
  "example_rav0 = example_bundle ''RAV0'' ''Rav 0 (April 1, 2024)'' ''r0'' ''10'' 9 []"

definition example_world_rav3 :: world where
  "example_world_rav3 =
     \<lparr>manifest_file = Json \<lparr>tinygrad_ref = None, bundles = Some [example_rav1]\<rparr>,
      metadata_files = [(''rav3 dir'', Json (example_descriptor ''r3'' ''rav3'' []))]\<rparr>"









section \<open>The URL builder: properties\<close>

lemma hex_digit_safe: "always_safe (hex_digit n)"
proof -
  have "\<forall>k \<in> set [0..<16]. always_safe (''0123456789ABCDEF'' ! k)"
    by code_simp
  moreover have "n mod 16 \<in> set [0..<16]" by simp
  ultimately show ?thesis
    unfolding hex_digit_def by blast
qed

lemma reserved_not_safe: "reserved c \<Longrightarrow> \<not> always_safe c"
  unfolding reserved_def
  by (elim disjE) (auto simp: always_safe_def is_ascii_letter_def is_digit_def)

lemma quote_char_chars:
  "x \<in> set (quote_char c) \<Longrightarrow> always_safe x \<or> x = CHR ''/'' \<or> x = CHR ''%''"
  by (auto simp: quote_char_def hex_digit_safe split: if_splits)

lemma quote_chars:
  "x \<in> set (quote s) \<Longrightarrow> always_safe x \<or> x = CHR ''/'' \<or> x = CHR ''%''"
  by (auto simp: quote_def dest: quote_char_chars)

lemma reserved_not_in_quote:
  assumes "reserved c" and "c \<noteq> CHR ''/''"
  shows "c \<notin> set (quote s)"
proof
  assume "c \<in> set (quote s)"
  then have "always_safe c \<or> c = CHR ''/'' \<or> c = CHR ''%''"
    by (rule quote_chars)
  moreover have "c \<noteq> CHR ''%''"
    using assms(1) by (auto simp: reserved_def)
  ultimately show False
    using assms reserved_not_safe by blast
qed

lemma make_model_url_example:
  "make_model_url ''recompiled3'' ''My Model'' ''a b.onnx'' =
     base_url @ ''recompiled3/My%20Model/a%20b.onnx''"
  by (simp add: make_model_url_def quote_def quote_char_def always_safe_def
      is_ascii_letter_def is_digit_def hex_digit_def)

text \<open>
  Claim C7, as the code has it. The URL is the fixed base path, the recompiled-directory
  name as it is, a slash, the quoted folder, a slash and the quoted file name. Quoting
  keeps a letter, a digit, one of \<open>_.-~\<close> and the slash, and replaces every other byte by
  a percent sign and two hexadecimal digits; so every reserved character except the
  slash is escaped in both components. For the folder \<open>My Model\<close>, the file
  \<open>a b.onnx\<close> and the directory \<open>recompiled3\<close> the URL ends in
  \<open>recompiled/recompiled3/My%20Model/a%20b.onnx\<close>.
\<close>

theorem make_model_url_quoted:
  "make_model_url rd fld fn = base_url @ rd @ ''/'' @ quote fld @ ''/'' @ quote fn
   \<and> (\<forall>c. reserved c \<and> c \<noteq> CHR ''/'' \<longrightarrow> c \<notin> set (quote fld) \<and> c \<notin> set (quote fn))
   \<and> (\<forall>c. quote_char c =
          (if always_safe c \<or> c = CHR ''/'' then [c]
           else [CHR ''%'', hex_digit ((of_char c :: nat) div 16), hex_digit (of_char c)]))
   \<and> make_model_url ''recompiled3'' ''My Model'' ''a b.onnx'' =
       ''https://raw.githubusercontent.com/hoofpilot/models/master/recompiled/''
       @ ''recompiled3/My%20Model/a%20b.onnx''"
proof (intro conjI allI impI)
  show "make_model_url rd fld fn = base_url @ rd @ ''/'' @ quote fld @ ''/'' @ quote fn"
    by (simp add: make_model_url_def)
next
  fix c assume "reserved c \<and> c \<noteq> CHR ''/''"
  then show "c \<notin> set (quote fld)" by (simp add: reserved_not_in_quote)
next
  fix c assume "reserved c \<and> c \<noteq> CHR ''/''"
  then show "c \<notin> set (quote fn)" by (simp add: reserved_not_in_quote)
next
  fix c show "quote_char c =
          (if always_safe c \<or> c = CHR ''/'' then [c]
           else [CHR ''%'', hex_digit ((of_char c :: nat) div 16), hex_digit (of_char c)])"
    by (simp add: quote_char_def)
next
  show "make_model_url ''recompiled3'' ''My Model'' ''a b.onnx'' =
       ''https://raw.githubusercontent.com/hoofpilot/models/master/recompiled/''
       @ ''recompiled3/My%20Model/a%20b.onnx''"
    using make_model_url_example by (simp add: base_url_def)
qed

theorem make_model_url_quoted_witness:
  "reserved (CHR ''?'') \<and> CHR ''?'' \<noteq> CHR ''/''
   \<and> CHR ''?'' \<notin> set (quote ''My Model?'') \<and> CHR ''?'' \<notin> set (quote ''a?b.onnx'')
   \<and> make_model_url ''recompiled3'' ''My Model?'' ''a?b.onnx'' =
       base_url @ ''recompiled3/My%20Model%3F/a%3Fb.onnx''"
proof -
  have r: "reserved (CHR ''?'') \<and> CHR ''?'' \<noteq> CHR ''/''"
    by (simp add: reserved_def)
  have q: "quote ''My Model?'' = ''My%20Model%3F''" "quote ''a?b.onnx'' = ''a%3Fb.onnx''"
    by (simp_all add: quote_def quote_char_def always_safe_def
        is_ascii_letter_def is_digit_def hex_digit_def)
  from make_model_url_quoted [of "''recompiled3''" "''My Model?''" "''a?b.onnx''"] r q
  show ?thesis by simp
qed

text \<open>
  Claim C7, as it is stated, fails: the slash is a reserved character, and a file name
  that holds one reaches the URL with the slash unescaped.
\<close>

theorem make_model_url_slash_counterexample:
  "reserved (CHR ''/'')
   \<and> make_model_url ''recompiled3'' ''My Model'' ''x/y.onnx'' =
       base_url @ ''recompiled3/My%20Model/'' @ ''x/y.onnx''"
  by (simp add: reserved_def make_model_url_def quote_def quote_char_def always_safe_def
      is_ascii_letter_def is_digit_def hex_digit_def)

section \<open>The date of a display name: properties\<close>

lemma takeWhile_unique:
  "x \<notin> set body \<Longrightarrow> takeWhile (\<lambda>y. y \<noteq> x) (body @ x # post) = body"
  by (induction body) auto

lemma dropWhile_unique:
  "x \<notin> set body \<Longrightarrow> dropWhile (\<lambda>y. y \<noteq> x) (body @ x # post) = x # post"
  by (induction body) auto

lemma paren_match_Nil: "\<not> paren_match [] pre body"
  by (simp add: paren_match_def)

lemma paren_match_here:
  "paren_match (c # cs) [] body \<longleftrightarrow>
     c = CHR ''('' \<and> takeWhile (\<lambda>x. x \<noteq> CHR '')'') cs = body \<and> body \<noteq> []
     \<and> dropWhile (\<lambda>x. x \<noteq> CHR '')'') cs \<noteq> []"
proof
  assume "paren_match (c # cs) [] body"
  then obtain post where "c = CHR ''(''" "cs = body @ CHR '')'' # post"
    "body \<noteq> []" "CHR '')'' \<notin> set body"
    by (auto simp: paren_match_def prefix_def)
  then show "c = CHR ''('' \<and> takeWhile (\<lambda>x. x \<noteq> CHR '')'') cs = body \<and> body \<noteq> []
     \<and> dropWhile (\<lambda>x. x \<noteq> CHR '')'') cs \<noteq> []"
    by (simp add: takeWhile_unique dropWhile_unique)
next
  assume a: "c = CHR ''('' \<and> takeWhile (\<lambda>x. x \<noteq> CHR '')'') cs = body \<and> body \<noteq> []
     \<and> dropWhile (\<lambda>x. x \<noteq> CHR '')'') cs \<noteq> []"
  let ?d = "dropWhile (\<lambda>x. x \<noteq> CHR '')'') cs"
  have "hd ?d = CHR '')''"
    using a hd_dropWhile[of "\<lambda>x. x \<noteq> CHR '')''" cs] by auto
  then obtain post where "?d = CHR '')'' # post"
    using a by (cases ?d) auto
  then have "cs = body @ CHR '')'' # post"
    using a takeWhile_dropWhile_id[of "\<lambda>x. x \<noteq> CHR '')''" cs] by simp
  moreover have "CHR '')'' \<notin> set body"
    using a by (metis (mono_tags, lifting) set_takeWhileD)
  ultimately show "paren_match (c # cs) [] body"
    using a by (simp add: paren_match_def)
qed

lemma paren_match_Cons:
  "paren_match (c # cs) (p # pre) body \<longleftrightarrow> p = c \<and> paren_match cs pre body"
  by (auto simp: paren_match_def)

lemma extract_no_match:
  "(\<forall>pre body. \<not> paren_match s pre body) \<Longrightarrow> extract_date_from_display_name s = []"
proof (induction s)
  case Nil
  then show ?case by simp
next
  case (Cons c cs)
  have "\<forall>pre body. \<not> paren_match cs pre body"
    using Cons.prems paren_match_Cons by blast
  then have ih: "extract_date_from_display_name cs = []"
    by (rule Cons.IH)
  have "\<not> paren_match (c # cs) [] (takeWhile (\<lambda>x. x \<noteq> CHR '')'') cs)"
    using Cons.prems by blast
  then show ?case
    using ih by (auto simp: paren_match_here)
qed

lemma extract_leftmost:
  "paren_match s pre body \<Longrightarrow>
   (\<forall>pre' body'. paren_match s pre' body' \<longrightarrow> length pre \<le> length pre') \<Longrightarrow>
   extract_date_from_display_name s = body"
proof (induction s arbitrary: pre)
  case Nil
  then show ?case by (simp add: paren_match_Nil)
next
  case (Cons c cs)
  show ?case
  proof (cases "\<exists>body'. paren_match (c # cs) [] body'")
    case True
    then obtain body' where "paren_match (c # cs) [] body'"
      by blast
    then have "length pre \<le> 0"
      using Cons.prems(2) by fastforce
    then have "pre = []" by simp
    then show ?thesis
      using Cons.prems(1) by (auto simp: paren_match_here)
  next
    case False
    then obtain p pre2 where pre: "pre = p # pre2"
      using Cons.prems(1) by (cases pre) auto
    then have m: "paren_match cs pre2 body"
      using Cons.prems(1) by (simp add: paren_match_Cons)
    have "\<forall>pre' body'. paren_match cs pre' body' \<longrightarrow> length pre2 \<le> length pre'"
    proof (intro allI impI)
      fix pre' body' assume "paren_match cs pre' body'"
      then have "paren_match (c # cs) (c # pre') body'"
        by (simp add: paren_match_Cons)
      then have "length pre \<le> length (c # pre')"
        using Cons.prems(2) by blast
      then show "length pre2 \<le> length pre'"
        using pre by simp
    qed
    then have "extract_date_from_display_name cs = body"
      using m Cons.IH by blast
    moreover have "\<not> paren_match (c # cs) [] (takeWhile (\<lambda>x. x \<noteq> CHR '')'') cs)"
      using False by blast
    ultimately show ?thesis
      by (auto simp: paren_match_here)
  qed
qed

text \<open>
  Claim C3, as the code has it. The date-extraction step returns the body of the leftmost
  match: the text after the first opening parenthesis that is followed by a non-empty
  run of characters other than a closing parenthesis and then by a closing parenthesis,
  up to that closing parenthesis. It returns the empty string when the display name has
  no such match. The sort key of a bundle is that text parsed by \<open>strptime\<close> in the
  format "Month Day, Year", and \<open>datetime.min\<close> when it does not parse.
\<close>

theorem extract_date_leftmost_match:
  "(paren_match s pre body
      \<and> (\<forall>pre' body'. paren_match s pre' body' \<longrightarrow> length pre \<le> length pre')
    \<longrightarrow> extract_date_from_display_name s = body)
   \<and> ((\<forall>pre' body'. \<not> paren_match s pre' body') \<longrightarrow> extract_date_from_display_name s = [])
   \<and> bundle_sort_key strptime b =
       (case strptime (extract_date_from_display_name
                         (case display_name b of None \<Rightarrow> [] | Some n \<Rightarrow> n)) of
          Some d \<Rightarrow> d
        | None \<Rightarrow> datetime_min)"
  using extract_leftmost [of s pre body] extract_no_match [of s]
  by (simp add: bundle_sort_key_def parse_date_def)

theorem extract_date_leftmost_match_witness:
  "paren_match ''(June 1, 2024) (x)'' [] ''June 1, 2024''
   \<and> extract_date_from_display_name ''(June 1, 2024) (x)'' = ''June 1, 2024''
   \<and> extract_date_from_display_name [] = []"
proof -
  have m: "paren_match ''(June 1, 2024) (x)'' [] ''June 1, 2024''"
    by (simp add: paren_match_def)
  have least: "\<forall>pre' body'. paren_match ''(June 1, 2024) (x)'' pre' body'
         \<longrightarrow> length ([] :: string) \<le> length pre'"
    by simp
  have none: "\<forall>pre' body'. \<not> paren_match [] pre' body'"
    by (simp add: paren_match_Nil)
  from extract_date_leftmost_match
    [of "''(June 1, 2024) (x)''" "[]" "''June 1, 2024''" "\<lambda>_. None" undefined] m least
  have 1: "extract_date_from_display_name ''(June 1, 2024) (x)'' = ''June 1, 2024''"
    by blast
  from extract_date_leftmost_match [of "[]" "[]" "[]" "\<lambda>_. None" undefined] none
  have 2: "extract_date_from_display_name [] = []"
    by blast
  from m 1 2 show ?thesis by blast
qed

text \<open>
  Claim C3, as it is stated, fails: on a display name with two parenthesised texts the
  step returns the first one, not the text between the last pair of parentheses.
\<close>

theorem extract_date_last_pair_counterexample:
  "extract_date_from_display_name ''A (x) (June 1, 2024)'' = ''x''
   \<and> last_parenthesized ''A (x) (June 1, 2024)'' = ''June 1, 2024''"
  by (simp add: last_parenthesized_def)

section \<open>Updating a bundle: properties\<close>


lemma is_big_overwrite [simp]:
  "is_big (overwrite_model rd fld c m) = is_big c"
  by (simp add: is_big_def overwrite_model_def)

lemma model_type_overwrite [simp]:
  "model_type (overwrite_model rd fld c m) = model_type m"
  by (simp add: overwrite_model_def)

lemma model_type_update_model [simp]:
  "model_type (update_model cs fld rd m) = model_type m"
  by (simp add: update_model_def split: option.splits)

lemma find_filter_models:
  "find P (filter_models cs) = Some c \<Longrightarrow> c \<in> set cs \<and> \<not> is_big c \<and> P c"
  by (auto simp: filter_models_def find_Some_iff dest: nth_mem)

lemma update_model_cases:
  "update_model (filter_models cs) fld rd m = m
   \<or> (\<exists>c \<in> set cs. \<not> is_big c \<and> model_type c = model_type m
        \<and> update_model (filter_models cs) fld rd m = overwrite_model rd fld c m)"
  by (auto simp: update_model_def split: option.splits dest: find_filter_models)

lemma update_model_first:
  assumes "fs = pre @ c # post" "\<forall>p \<in> set pre. model_type p \<noteq> model_type m"
    "model_type c = model_type m"
  shows "update_model fs fld rd m = overwrite_model rd fld c m"
proof -
  have "find (\<lambda>mm. model_type mm = model_type m) (pre @ c # post) = Some c"
    using assms(2,3) by (induction pre) auto
  then show ?thesis by (simp add: update_model_def assms(1))
qed

lemma update_model_none:
  assumes "\<forall>p \<in> set fs. model_type p \<noteq> model_type m"
  shows "update_model fs fld rd m = m"
proof -
  have "find (\<lambda>mm. model_type mm = model_type m) fs = None"
    using assms by (simp add: find_None_iff)
  then show ?thesis by (simp add: update_model_def)
qed

lemma update_bundle_models_field:
  "models (update_bundle_models b cs fld rd) =
     map_option (map (update_model (filter_models cs) fld rd)) (models b)"
  by (simp add: update_bundle_models_def split: option.splits)

lemma update_bundle_Inr:
  "update_bundle lib a meta fld b = Inr b' \<Longrightarrow>
     \<exists>sn ms dn hz. short_name b = Some sn \<and> meta_models meta = Some ms
       \<and> display_name b = Some dn \<and> is_20hz b = Some hz
       \<and> b' = (update_bundle_models (b\<lparr>short_name := Some (py_upper lib sn)\<rparr>)
                 ms fld (recompiled_dir_name a))
              \<lparr>display_name :=
                 Some (case meta_display_name meta of None \<Rightarrow> dn | Some v \<Rightarrow> v),
               is_20hz := Some (case meta_is_20hz meta of None \<Rightarrow> hz | Some v \<Rightarrow> v),
               build_time :=
                 Some (case meta_build_time meta of
                         None \<Rightarrow> (case build_time b of None \<Rightarrow> None | Some v \<Rightarrow> v)
                       | Some v \<Rightarrow> v)\<rparr>"
  by (auto simp: update_bundle_def split: option.splits)

lemma update_bundle_models_other [simp]:
  "short_name (update_bundle_models b cs fld rd) = short_name b"
  "display_name (update_bundle_models b cs fld rd) = display_name b"
  "is_20hz (update_bundle_models b cs fld rd) = is_20hz b"
  "ref (update_bundle_models b cs fld rd) = ref b"
  "environment (update_bundle_models b cs fld rd) = environment b"
  "runner (update_bundle_models b cs fld rd) = runner b"
  "index (update_bundle_models b cs fld rd) = index b"
  "minimum_selector_version (update_bundle_models b cs fld rd) = minimum_selector_version b"
  "generation (update_bundle_models b cs fld rd) = generation b"
  "build_time (update_bundle_models b cs fld rd) = build_time b"
  "overrides (update_bundle_models b cs fld rd) = overrides b"
  by (simp_all add: update_bundle_models_def split: option.splits)

lemma update_bundle_models_eq:
  "update_bundle lib a meta fld b = Inr b' \<Longrightarrow> meta_models meta = Some cs \<Longrightarrow>
     models b' = map_option (map (update_model (filter_models cs) fld (recompiled_dir_name a))) (models b)"
  by (auto dest!: update_bundle_Inr simp: update_bundle_models_field)

lemma update_bundle_frame:
  "update_bundle lib a meta fld b = Inr b' \<Longrightarrow>
     ref b' = ref b \<and> index b' = index b \<and> environment b' = environment b
     \<and> runner b' = runner b \<and> minimum_selector_version b' = minimum_selector_version b
     \<and> generation b' = generation b \<and> overrides b' = overrides b
     \<and> short_name b' = Some (py_upper lib (the (short_name b)))"
  by (auto dest!: update_bundle_Inr)


section \<open>The loop: the state stays well formed\<close>

lemma new_bundle_ref: "new_bundle lib a bs meta r sn = Inr nb \<Longrightarrow> ref nb = Some r"
  by (auto simp: new_bundle_def split: sum.splits option.splits prod.splits)

text \<open>The two ways in which one iteration changes the state.\<close>

lemma process_metadata_Inr:
  assumes "process_metadata lib a st mf = Inr st'"
  obtains (update) meta r i b' where
      "load (snd mf) = Inr meta" "meta_ref meta = Some r"
      "ref_to_bundle st r = Some i"
      "update_bundle lib a meta (fst mf) (json_bundles st ! i) = Inr b'"
      "st' = st\<lparr>json_bundles := (json_bundles st)[i := b']\<rparr>"
  | (create) meta r nb b' where
      "load (snd mf) = Inr meta" "meta_ref meta = Some r"
      "ref_to_bundle st r = None"
      "new_bundle lib a (json_bundles st) meta r
         (py_upper lib (case meta_short_name meta of None \<Rightarrow> fst mf | Some s \<Rightarrow> s)) = Inr nb"
      "update_bundle lib a meta (fst mf) nb = Inr b'"
      "st' = \<lparr>json_bundles = json_bundles st @ [b'],
             ref_to_bundle = (ref_to_bundle st)(r \<mapsto> length (json_bundles st))\<rparr>"
proof -
  from assms obtain meta r st1 i b' where
    l: "load (snd mf) = Inr meta" and r: "meta_ref meta = Some r"
    and a1: "add_if_new lib a meta r
         (py_upper lib (case meta_short_name meta of None \<Rightarrow> fst mf | Some s \<Rightarrow> s)) st = Inr st1"
    and i: "ref_to_bundle st1 r = Some i"
    and u: "update_bundle lib a meta (fst mf) (json_bundles st1 ! i) = Inr b'"
    and s: "st' = st1\<lparr>json_bundles := (json_bundles st1)[i := b']\<rparr>"
    by (auto simp: process_metadata_def Let_def split: sum.splits option.splits)
  show thesis
  proof (cases "ref_to_bundle st r")
    case None
    with a1 obtain nb where
      nb: "new_bundle lib a (json_bundles st) meta r
         (py_upper lib (case meta_short_name meta of None \<Rightarrow> fst mf | Some s \<Rightarrow> s)) = Inr nb"
      and st1: "st1 = \<lparr>json_bundles = json_bundles st @ [nb],
                    ref_to_bundle = (ref_to_bundle st)(r \<mapsto> length (json_bundles st))\<rparr>"
      by (auto simp: add_if_new_def split: sum.splits)
    from st1 i have "i = length (json_bundles st)" by simp
    with st1 u s show thesis
      by (intro create [OF l r None nb, of b']) simp_all
  next
    case (Some k)
    with a1 have "st1 = st" by (simp add: add_if_new_def)
    with i u s show thesis
      by (intro update [OF l r, of i b']) simp_all
  qed
qed

lemma nth_update_same_image:
  "f y = f (xs ! i) \<Longrightarrow> f (xs[i := y] ! k) = f (xs ! k)"
  by (cases "k = i"; cases "i < length xs") (simp_all add: list_update_beyond)

lemma refs_canonical_snoc:
  assumes "refs_canonical \<lparr>json_bundles = pre, ref_to_bundle = m\<rparr>" "ref b = Some r"
  shows "refs_canonical \<lparr>json_bundles = pre @ [b], ref_to_bundle = m(r \<mapsto> length pre)\<rparr>"
proof -
  have v: "\<And>r' i. m r' = Some i \<Longrightarrow> i < length pre \<and> ref (pre ! i) = Some r'"
    using assms(1) by (simp add: refs_canonical_def refs_valid_def)
  have c: "\<And>i. i < length pre \<Longrightarrow> \<exists>r' j. ref (pre ! i) = Some r' \<and> m r' = Some j \<and> i \<le> j"
    using assms(1) by (simp add: refs_canonical_def)
  have "i < length (pre @ [b]) \<and> ref ((pre @ [b]) ! i) = Some r'"
    if "(m(r \<mapsto> length pre)) r' = Some i" for r' i
  proof (cases "r' = r")
    case True
    then show ?thesis using that assms(2) by auto
  next
    case False
    then have "m r' = Some i" using that by simp
    from v [OF this] show ?thesis by (simp add: nth_append)
  qed
  moreover have "\<exists>r' j. ref ((pre @ [b]) ! i) = Some r' \<and> (m(r \<mapsto> length pre)) r' = Some j \<and> i \<le> j"
    if "i < length (pre @ [b])" for i
  proof (cases "i < length pre")
    case True
    from c [OF this] obtain r' j where "ref (pre ! i) = Some r'" "m r' = Some j" "i \<le> j"
      by blast
    moreover from this(2) have "j < length pre" using v by blast
    ultimately show ?thesis using True by (auto simp: nth_append)
  next
    case False
    then have "i = length pre" using that by simp
    then show ?thesis using assms(2) by simp
  qed
  ultimately show ?thesis
    by (simp add: refs_canonical_def refs_valid_def)
qed

lemma refs_canonical_step:
  assumes "process_metadata lib a st mf = Inr st'" "refs_canonical st"
  shows "refs_canonical st'"
  using assms(1)
proof (cases rule: process_metadata_Inr)
  case (update meta r i b')
  have "ref b' = ref (json_bundles st ! i)"
    using update(4) by (simp add: update_bundle_frame)
  then have "\<And>k. ref ((json_bundles st)[i := b'] ! k) = ref (json_bundles st ! k)"
    by (rule nth_update_same_image)
  then show ?thesis
    using assms(2) update(5) by (simp add: refs_canonical_def refs_valid_def)
next
  case (create meta r nb b')
  have "ref b' = Some r"
    using create(4,5) by (simp add: update_bundle_frame new_bundle_ref)
  moreover have "refs_canonical
      \<lparr>json_bundles = json_bundles st, ref_to_bundle = ref_to_bundle st\<rparr>"
    using assms(2) by (simp add: refs_canonical_def refs_valid_def)
  ultimately show ?thesis
    unfolding create(6) by (rule refs_canonical_snoc [rotated])
qed

lemma refs_canonical_process_all:
  "process_all lib a st mfs = Inr st' \<Longrightarrow> refs_canonical st \<Longrightarrow> refs_canonical st'"
  by (induction mfs arbitrary: st) (auto split: sum.splits dest: refs_canonical_step)

lemma build_ref_to_bundle_canonical_aux:
  assumes "build_ref_to_bundle (length pre) bs m = Inr m'"
    "refs_canonical \<lparr>json_bundles = pre, ref_to_bundle = m\<rparr>"
  shows "refs_canonical \<lparr>json_bundles = pre @ bs, ref_to_bundle = m'\<rparr>"
  using assms
proof (induction bs arbitrary: pre m)
  case Nil
  then show ?case by simp
next
  case (Cons b bs)
  from Cons.prems(1) obtain r where r: "ref b = Some r"
    and rest: "build_ref_to_bundle (length (pre @ [b])) bs (m(r \<mapsto> length pre)) = Inr m'"
    by (auto split: option.splits)
  from Cons.IH [OF rest refs_canonical_snoc [OF Cons.prems(2) r]] show ?case by simp
qed

lemma build_ref_to_bundle_canonical:
  "build_ref_to_bundle 0 bs Map.empty = Inr m \<Longrightarrow>
     refs_canonical \<lparr>json_bundles = bs, ref_to_bundle = m\<rparr>"
  using build_ref_to_bundle_canonical_aux [of "[]" bs Map.empty m]
  by (simp add: refs_canonical_def refs_valid_def)

lemma refs_canonical_unique:
  assumes "refs_canonical \<lparr>json_bundles = bs, ref_to_bundle = m\<rparr>"
    "refs_canonical \<lparr>json_bundles = bs', ref_to_bundle = m'\<rparr>"
    "map ref bs = map ref bs'"
  shows "m = m'"
proof
  fix r
  have len: "length bs = length bs'"
    using assms(3) by (metis length_map)
  have nth: "\<And>i. i < length bs \<Longrightarrow> ref (bs ! i) = ref (bs' ! i)"
    using assms(3) by (metis nth_map len)
  have half: "m1 r = Some i \<Longrightarrow> m2 r = Some i"
    if c1: "refs_canonical \<lparr>json_bundles = b1, ref_to_bundle = m1\<rparr>"
      and c2: "refs_canonical \<lparr>json_bundles = b2, ref_to_bundle = m2\<rparr>"
      and l: "length b1 = length b2"
      and n: "\<And>i. i < length b1 \<Longrightarrow> ref (b1 ! i) = ref (b2 ! i)"
    for m1 m2 :: "string \<rightharpoonup> nat" and b1 b2 i
  proof -
    assume m1: "m1 r = Some i"
    then have i: "i < length b1" "ref (b1 ! i) = Some r"
      using c1 by (auto simp: refs_canonical_def refs_valid_def)
    then have "ref (b2 ! i) = Some r" "i < length b2" using n l by auto
    then obtain j where j: "m2 r = Some j" "i \<le> j"
      using c2 by (fastforce simp: refs_canonical_def)
    then have "j < length b2" "ref (b2 ! j) = Some r"
      using c2 by (auto simp: refs_canonical_def refs_valid_def)
    then have "ref (b1 ! j) = Some r" "j < length b1" using n l by auto
    then obtain k where "m1 r = Some k" "j \<le> k"
      using c1 by (fastforce simp: refs_canonical_def)
    then show "m2 r = Some i" using m1 j by simp
  qed
  show "m r = m' r"
  proof (cases "m r")
    case None
    show ?thesis
    proof (cases "m' r")
      case None
      with \<open>m r = None\<close> show ?thesis by simp
    next
      case (Some i)
      then have "m r = Some i"
        using half [OF assms(2) assms(1)] len nth by simp
      with None show ?thesis by simp
    qed
  next
    case (Some i)
    then have "m' r = Some i"
      using half [OF assms(1) assms(2) len] nth by simp
    with Some show ?thesis by simp
  qed
qed

section \<open>The update phase keeps the model slots\<close>

text \<open>
  Claim C10. The update phase neither adds nor removes models: a bundle without a
  \<open>models\<close> key stays without one, and otherwise the list after the update has the same
  length and the same types in the same order. A candidate (a descriptor model that is
  not big) whose type is the type of no model of the bundle leaves no model of its type
  in the bundle; a model of the bundle is overwritten from the first candidate of its
  type in descriptor order, and is left as it is when there is no candidate of its type.
\<close>

theorem update_keeps_model_slots:
  assumes "update_bundle lib a meta fld b = Inr b'"
  shows "(models b = None \<longrightarrow> models b' = None)
    \<and> (\<forall>ms. models b = Some ms \<longrightarrow>
         (\<exists>ms' cs. models b' = Some ms' \<and> meta_models meta = Some cs
            \<and> length ms' = length ms
            \<and> map model_type ms' = map model_type ms
            \<and> (\<forall>c \<in> set (filter_models cs).
                  model_type c \<notin> model_type ` set ms \<longrightarrow> model_type c \<notin> model_type ` set ms')
            \<and> (\<forall>i pre c post.
                  i < length ms \<and> filter_models cs = pre @ c # post
                  \<and> (\<forall>p \<in> set pre. model_type p \<noteq> model_type (ms ! i))
                  \<and> model_type c = model_type (ms ! i)
                  \<longrightarrow> ms' ! i = overwrite_model (recompiled_dir_name a) fld c (ms ! i))
            \<and> (\<forall>i. i < length ms
                  \<and> (\<forall>p \<in> set (filter_models cs). model_type p \<noteq> model_type (ms ! i))
                  \<longrightarrow> ms' ! i = ms ! i)))"
proof -
  from update_bundle_Inr [OF assms] obtain cs where cs: "meta_models meta = Some cs"
    by blast
  let ?f = "update_model (filter_models cs) fld (recompiled_dir_name a)"
  have m: "models b' = map_option (map ?f) (models b)"
    using assms cs by (rule update_bundle_models_eq)
  have types: "map model_type (map ?f ms) = map model_type ms" for ms
    by (simp add: comp_def)
  have "\<exists>ms'. models b' = Some ms' \<and> meta_models meta = Some cs
            \<and> length ms' = length ms
            \<and> map model_type ms' = map model_type ms
            \<and> (\<forall>c \<in> set (filter_models cs).
                  model_type c \<notin> model_type ` set ms \<longrightarrow> model_type c \<notin> model_type ` set ms')
            \<and> (\<forall>i pre c post.
                  i < length ms \<and> filter_models cs = pre @ c # post
                  \<and> (\<forall>p \<in> set pre. model_type p \<noteq> model_type (ms ! i))
                  \<and> model_type c = model_type (ms ! i)
                  \<longrightarrow> ms' ! i = overwrite_model (recompiled_dir_name a) fld c (ms ! i))
            \<and> (\<forall>i. i < length ms
                  \<and> (\<forall>p \<in> set (filter_models cs). model_type p \<noteq> model_type (ms ! i))
                  \<longrightarrow> ms' ! i = ms ! i)"
    if ms: "models b = Some ms" for ms
  proof (intro exI [of _ "map ?f ms"] conjI ballI allI impI)
    show "models b' = Some (map ?f ms)" using m ms by simp
    show "meta_models meta = Some cs" by (rule cs)
    show "length (map ?f ms) = length ms" by simp
    show "map model_type (map ?f ms) = map model_type ms" by (rule types)
  next
    fix c assume "model_type c \<notin> model_type ` set ms"
    moreover have "model_type ` set (map ?f ms) = model_type ` set ms"
      by (simp add: image_image)
    ultimately show "model_type c \<notin> model_type ` set (map ?f ms)" by simp
  next
    fix i pre c post
    assume "i < length ms \<and> filter_models cs = pre @ c # post
                  \<and> (\<forall>p \<in> set pre. model_type p \<noteq> model_type (ms ! i))
                  \<and> model_type c = model_type (ms ! i)"
    then show "map ?f ms ! i = overwrite_model (recompiled_dir_name a) fld c (ms ! i)"
      by (simp add: update_model_first)
  next
    fix i
    assume "i < length ms
                  \<and> (\<forall>p \<in> set (filter_models cs). model_type p \<noteq> model_type (ms ! i))"
    then show "map ?f ms ! i = ms ! i"
      by (simp add: update_model_none)
  qed
  moreover have "models b = None \<longrightarrow> models b' = None"
    using m by simp
  ultimately show ?thesis by blast
qed

lemma example_is_big:
  "is_big (example_model ''policy'' ''Big_policy'' ''h0'')"
  "\<not> is_big (example_model ''policy'' ''p1'' ''h1'')"
  "\<not> is_big (example_model ''policy'' ''p2'' ''h2'')"
  "\<not> is_big (example_model ''extra'' ''e'' ''h3'')"
  by code_simp+

theorem update_keeps_model_slots_witness:
  "\<exists>b' ms'.
     update_bundle example_library example_args
       (example_descriptor ''r1'' ''rav1''
          [example_model ''policy'' ''Big_policy'' ''h0'',
           example_model ''policy'' ''p1'' ''h1'',
           example_model ''policy'' ''p2'' ''h2'',
           example_model ''extra'' ''e'' ''h3''])
       ''RAV1 folder''
       (example_bundle ''rav1'' ''Rav 1'' ''r1'' ''11'' 2
          [example_model ''vision'' ''v0'' ''h4'', example_model ''policy'' ''p0'' ''h5''])
     = Inr b'
     \<and> models b' = Some ms'
     \<and> length ms' = 2
     \<and> map model_type ms' = [''vision'', ''policy'']
     \<and> ms' ! 0 = example_model ''vision'' ''v0'' ''h4''
     \<and> ms' ! 1 =
         overwrite_model ''recompiled3'' ''RAV1 folder'' (example_model ''policy'' ''p1'' ''h1'')
           (example_model ''policy'' ''p0'' ''h5'')"
proof -
  let ?cs = "[example_model ''policy'' ''Big_policy'' ''h0'',
           example_model ''policy'' ''p1'' ''h1'',
           example_model ''policy'' ''p2'' ''h2'',
           example_model ''extra'' ''e'' ''h3'']"
  let ?ms = "[example_model ''vision'' ''v0'' ''h4'', example_model ''policy'' ''p0'' ''h5'']"
  let ?meta = "example_descriptor ''r1'' ''rav1'' ?cs"
  let ?b = "example_bundle ''rav1'' ''Rav 1'' ''r1'' ''11'' 2 ?ms"
  obtain b' where u: "update_bundle example_library example_args ?meta ''RAV1 folder'' ?b = Inr b'"
    by (simp add: update_bundle_def example_descriptor_def example_bundle_def)
  have f: "filter_models ?cs =
      [] @ example_model ''policy'' ''p1'' ''h1''
         # [example_model ''policy'' ''p2'' ''h2'', example_model ''extra'' ''e'' ''h3'']"
    by (simp add: filter_models_def example_is_big)
  have mb: "models ?b = Some ?ms"
    by (simp add: example_bundle_def)
  have mm: "meta_models ?meta = Some ?cs"
    by (simp add: example_descriptor_def)
  from update_keeps_model_slots [OF u] mb mm obtain ms' where
    1: "models b' = Some ms'" and 2: "length ms' = length ?ms"
    and 3: "map model_type ms' = map model_type ?ms"
    and 4: "\<forall>i pre c post.
                  i < length ?ms \<and> filter_models ?cs = pre @ c # post
                  \<and> (\<forall>p \<in> set pre. model_type p \<noteq> model_type (?ms ! i))
                  \<and> model_type c = model_type (?ms ! i)
                  \<longrightarrow> ms' ! i = overwrite_model (recompiled_dir_name example_args) ''RAV1 folder'' c (?ms ! i)"
    and 5: "\<forall>i. i < length ?ms
                  \<and> (\<forall>p \<in> set (filter_models ?cs). model_type p \<noteq> model_type (?ms ! i))
                  \<longrightarrow> ms' ! i = ?ms ! i"
    by auto
  have "ms' ! 1 = overwrite_model (recompiled_dir_name example_args) ''RAV1 folder''
          (example_model ''policy'' ''p1'' ''h1'') (?ms ! 1)"
    using 4 [rule_format, of 1 "[]" "example_model ''policy'' ''p1'' ''h1''"] f
    by (simp add: example_model_def)
  moreover have "ms' ! 0 = ?ms ! 0"
    using 5 [rule_format, of 0] f by (simp add: example_model_def)
  ultimately show ?thesis
    using u 1 2 3 by (simp add: example_args_def example_model_def)
qed

section \<open>The loop: what happens to each bundle\<close>

lemma grown_from_nth:
  "grown_from R N bs0 bs \<longleftrightarrow>
     length bs0 \<le> length bs
     \<and> (\<forall>i < length bs0. R (bs0 ! i) (bs ! i))
     \<and> (\<forall>i. length bs0 \<le> i \<and> i < length bs \<longrightarrow> N (bs ! i))"
proof -
  have "list_all N (drop (length bs0) bs)
      \<longleftrightarrow> (\<forall>i. length bs0 \<le> i \<and> i < length bs \<longrightarrow> N (bs ! i))"
  proof
    assume l: "list_all N (drop (length bs0) bs)"
    show "\<forall>i. length bs0 \<le> i \<and> i < length bs \<longrightarrow> N (bs ! i)"
    proof (intro allI impI)
      fix i assume i: "length bs0 \<le> i \<and> i < length bs"
      then have "i - length bs0 < length (drop (length bs0) bs)" by auto
      then have "N (drop (length bs0) bs ! (i - length bs0))"
        using l by (simp add: list_all_length)
      then show "N (bs ! i)" using i by simp
    qed
  next
    assume "\<forall>i. length bs0 \<le> i \<and> i < length bs \<longrightarrow> N (bs ! i)"
    then show "list_all N (drop (length bs0) bs)"
      by (simp add: list_all_length)
  qed
  then show ?thesis
    unfolding grown_from_def by (auto simp: list_all2_conv_all_nth)
qed

lemma grown_from_refl:
  "(\<And>b. R b b) \<Longrightarrow> grown_from R N bs bs"
  by (auto simp: grown_from_nth)

lemma grown_from_step:
  assumes step: "process_metadata lib a st mf = Inr st'"
    and upd: "\<And>meta b0 b b'. R b0 b \<Longrightarrow> update_bundle lib a meta (fst mf) b = Inr b' \<Longrightarrow> R b0 b'"
    and updN: "\<And>meta b b'. N b \<Longrightarrow> update_bundle lib a meta (fst mf) b = Inr b' \<Longrightarrow> N b'"
    and new: "\<And>bs meta r sn nb. new_bundle lib a bs meta r sn = Inr nb \<Longrightarrow> N nb"
    and inv: "grown_from R N bs0 (json_bundles st)"
  shows "grown_from R N bs0 (json_bundles st')"
  using step
proof (cases rule: process_metadata_Inr)
  case (update meta r i b')
  let ?bs = "json_bundles st"
  have "R (bs0 ! k) (?bs[i := b'] ! k)" if "k < length bs0" for k
  proof (cases "k = i")
    case True
    then have "R (bs0 ! i) (?bs ! i)" using inv that by (simp add: grown_from_nth)
    from upd [OF this update(4)] show ?thesis
      using True that inv by (simp add: grown_from_nth)
  next
    case False
    then show ?thesis using inv that by (simp add: grown_from_nth)
  qed
  moreover have "N (?bs[i := b'] ! k)" if "length bs0 \<le> k \<and> k < length ?bs" for k
  proof (cases "k = i")
    case True
    then have "N (?bs ! i)" using inv that by (simp add: grown_from_nth)
    from updN [OF this update(4)] show ?thesis
      using True that by simp
  next
    case False
    then show ?thesis using inv that by (simp add: grown_from_nth)
  qed
  ultimately show ?thesis
    using inv update(5) by (simp add: grown_from_nth)
next
  case (create meta r nb b')
  have "N b'"
    using new [OF create(4)] create(5) updN by blast
  then show ?thesis
    using inv create(6) by (auto simp: grown_from_nth nth_append)
qed

lemma grown_from_process_all:
  assumes "process_all lib a st mfs = Inr st'"
    and upd: "\<And>meta fld b0 b b'. R b0 b \<Longrightarrow> update_bundle lib a meta fld b = Inr b' \<Longrightarrow> R b0 b'"
    and updN: "\<And>meta fld b b'. N b \<Longrightarrow> update_bundle lib a meta fld b = Inr b' \<Longrightarrow> N b'"
    and new: "\<And>bs meta r sn nb. new_bundle lib a bs meta r sn = Inr nb \<Longrightarrow> N nb"
    and inv: "grown_from R N bs0 (json_bundles st)"
  shows "grown_from R N bs0 (json_bundles st')"
  using assms(1) inv
proof (induction mfs arbitrary: st)
  case Nil
  then show ?case by simp
next
  case (Cons mf mfs)
  from Cons.prems(1) obtain st1 where 1: "process_metadata lib a st mf = Inr st1"
    and 2: "process_all lib a st1 mfs = Inr st'"
    by (auto split: sum.splits)
  have "grown_from R N bs0 (json_bundles st1)"
    using 1 upd updN new Cons.prems(2) by (rule grown_from_step)
  with 2 show ?case by (rule Cons.IH)
qed

lemma merge_Inr:
  assumes "merge lib a bs mfs = Inr bs'"
  obtains m st where "build_ref_to_bundle 0 bs Map.empty = Inr m"
    "process_all lib a \<lparr>json_bundles = bs, ref_to_bundle = m\<rparr> mfs = Inr st"
    "bs' = json_bundles st"
    "refs_canonical \<lparr>json_bundles = bs, ref_to_bundle = m\<rparr>" "refs_canonical st"
proof -
  from assms obtain m st where 1: "build_ref_to_bundle 0 bs Map.empty = Inr m"
    and 2: "process_all lib a \<lparr>json_bundles = bs, ref_to_bundle = m\<rparr> mfs = Inr st"
    and 3: "bs' = json_bundles st"
    by (auto simp: merge_def split: sum.splits)
  have 4: "refs_canonical \<lparr>json_bundles = bs, ref_to_bundle = m\<rparr>"
    using 1 by (rule build_ref_to_bundle_canonical)
  have "refs_canonical st"
    using 2 4 by (rule refs_canonical_process_all)
  with 1 2 3 4 show thesis by (rule that)
qed

lemma grown_from_merge:
  assumes "merge lib a bs mfs = Inr bs'"
    and refl: "\<And>b. R b b"
    and upd: "\<And>meta fld b0 b b'. R b0 b \<Longrightarrow> update_bundle lib a meta fld b = Inr b' \<Longrightarrow> R b0 b'"
    and updN: "\<And>meta fld b b'. N b \<Longrightarrow> update_bundle lib a meta fld b = Inr b' \<Longrightarrow> N b'"
    and new: "\<And>bs meta r sn nb. new_bundle lib a bs meta r sn = Inr nb \<Longrightarrow> N nb"
  shows "grown_from R N bs bs'"
  using assms(1)
proof (cases rule: merge_Inr)
  case (1 m st)
  have "grown_from R N bs (json_bundles \<lparr>json_bundles = bs, ref_to_bundle = m\<rparr>)"
    using refl by (simp add: grown_from_refl)
  with 1(2) upd updN new have "grown_from R N bs (json_bundles st)"
    by (rule grown_from_process_all)
  then show ?thesis using 1(3) by simp
qed

lemma main_Inr:
  assumes "main lib a w = Inr m'"
  obtains m bs bs1 where "load (manifest_file w) = Inr m" "bundles m = Some bs"
    "merge lib a bs (metadata_files w) = Inr bs1"
    "m' = (case arg_tinygrad_ref a of None \<Rightarrow> m | Some t \<Rightarrow> m\<lparr>tinygrad_ref := Some t\<rparr>)
            \<lparr>bundles := Some (post_process (py_strptime lib) a bs1)\<rparr>"
  using assms
  by (auto simp: main_def Let_def split: sum.splits option.splits)

section \<open>The indexes without a sort\<close>

lemma set_min_version_nth:
  "length (set_min_version a bs) = length bs"
  "i < length bs \<Longrightarrow> index (set_min_version a bs ! i) = index (bs ! i)"
  "i < length bs \<Longrightarrow> ref (set_min_version a bs ! i) = ref (bs ! i)"
  "i < length bs \<Longrightarrow> short_name (set_min_version a bs ! i) = short_name (bs ! i)"
  "i < length bs \<Longrightarrow> models (set_min_version a bs ! i) = models (bs ! i)"
  by (simp_all add: set_min_version_def split: option.splits)

lemma example_main_succeeds:
  "\<exists>m'. main example_library example_args example_world = Inr m'"
proof -
  have "case main example_library example_args example_world of Inl _ \<Rightarrow> False | Inr _ \<Rightarrow> True"
    by code_simp
  then show ?thesis by (simp split: sum.splits)
qed

text \<open>
  Claim C8. In a run without \<open>--sort-by-date\<close>, whatever the other flags and the
  descriptors are, the bundles of the loaded manifest are at their positions in the
  written manifest, before the bundles the run has created, and each has the \<open>index\<close>
  (and the \<open>ref\<close>) that it had in the loaded manifest.
\<close>

theorem index_kept_without_sort:
  assumes "main lib a w = Inr m'" and "\<not> arg_sort_by_date a"
  shows "\<exists>m bs bs'. load (manifest_file w) = Inr m \<and> bundles m = Some bs
     \<and> bundles m' = Some bs' \<and> length bs \<le> length bs'
     \<and> (\<forall>i < length bs. index (bs' ! i) = index (bs ! i) \<and> ref (bs' ! i) = ref (bs ! i))"
  using assms(1)
proof (cases rule: main_Inr)
  case (1 m bs bs1)
  let ?R = "\<lambda>b0 b. index b = index b0 \<and> ref b = ref b0"
  have "grown_from ?R (\<lambda>_. True) bs bs1"
    using 1(3) by (rule grown_from_merge) (simp_all add: update_bundle_frame)
  then have g: "length bs \<le> length bs1"
    "\<And>i. i < length bs \<Longrightarrow> index (bs1 ! i) = index (bs ! i) \<and> ref (bs1 ! i) = ref (bs ! i)"
    by (simp_all add: grown_from_nth)
  have p: "post_process (py_strptime lib) a bs1 = set_min_version a bs1"
    using assms(2) by (simp add: post_process_def)
  have "bundles m' = Some (set_min_version a bs1)"
    using 1(4) p by (simp split: option.splits)
  moreover have "length bs \<le> length (set_min_version a bs1)"
    using g(1) by (simp add: set_min_version_nth)
  moreover have "index (set_min_version a bs1 ! i) = index (bs ! i)
      \<and> ref (set_min_version a bs1 ! i) = ref (bs ! i)" if "i < length bs" for i
    using that g by (simp add: set_min_version_nth)
  ultimately show ?thesis
    using 1(1,2) by blast
qed

theorem index_kept_without_sort_witness:
  "\<exists>m' bs'. main example_library example_args example_world = Inr m'
     \<and> bundles m' = Some bs' \<and> index (bs' ! 0) = Some 2 \<and> index (bs' ! 1) = Some 5
     \<and> ref (bs' ! 0) = Some ''r1''"
proof -
  obtain m' where m: "main example_library example_args example_world = Inr m'"
    using example_main_succeeds by blast
  have s: "\<not> arg_sort_by_date example_args"
    by (simp add: example_args_def)
  from index_kept_without_sort [OF m s] obtain bs' where
    "bundles m' = Some bs'"
    "\<forall>i < length (the (bundles example_manifest)).
       index (bs' ! i) = index (the (bundles example_manifest) ! i)
       \<and> ref (bs' ! i) = ref (the (bundles example_manifest) ! i)"
    by (auto simp: example_world_def)
  then show ?thesis
    using m by (auto simp: example_manifest_def example_bundle_def)
qed

section \<open>Big models\<close>

lemma update_model_big:
  "is_big (update_model (filter_models cs) fld rd m) \<Longrightarrow>
     update_model (filter_models cs) fld rd m = m"
  using update_model_cases [of cs fld rd m] by auto

lemma no_big_written_refl: "no_big_written b b"
  by (simp add: no_big_written_def list_all2_same split: option.splits)

lemma no_big_written_update:
  assumes "no_big_written b0 b" "update_bundle lib a meta fld b = Inr b'"
  shows "no_big_written b0 b'"
proof -
  from update_bundle_Inr [OF assms(2)] obtain cs where cs: "meta_models meta = Some cs"
    by blast
  let ?f = "update_model (filter_models cs) fld (recompiled_dir_name a)"
  have m: "models b' = map_option (map ?f) (models b)"
    using assms(2) cs by (rule update_bundle_models_eq)
  have r: "ref b' = ref b"
    using assms(2) by (simp add: update_bundle_frame)
  have "list_all2 (\<lambda>m0 m. is_big m \<longrightarrow> m = m0) ms0 (map ?f ms)"
    if "list_all2 (\<lambda>m0 m. is_big m \<longrightarrow> m = m0) ms0 ms" for ms0 ms
  proof -
    have "is_big (?f x) \<longrightarrow> ?f x = m0" if "is_big x \<longrightarrow> x = m0" for m0 x
      using that update_model_big [of cs fld "recompiled_dir_name a" x] by auto
    then show ?thesis
      using that by (simp add: list_all2_conv_all_nth)
  qed
  then show ?thesis
    using assms(1) m r by (auto simp: no_big_written_def split: option.splits)
qed

lemma all_not_big_update:
  assumes "all_not_big b" "update_bundle lib a meta fld b = Inr b'"
  shows "all_not_big b'"
proof -
  from update_bundle_Inr [OF assms(2)] obtain cs where cs: "meta_models meta = Some cs"
    by blast
  let ?f = "update_model (filter_models cs) fld (recompiled_dir_name a)"
  have m: "models b' = map_option (map ?f) (models b)"
    using assms(2) cs by (rule update_bundle_models_eq)
  have "\<not> is_big (?f x)" if "\<not> is_big x" for x
    using that update_model_big by fastforce
  then show ?thesis
    using assms(1) m by (auto simp: all_not_big_def list_all_iff split: option.splits)
qed

lemma all_not_big_new:
  "new_bundle lib a bs meta r sn = Inr nb \<Longrightarrow> all_not_big nb"
  by (auto simp: new_bundle_def all_not_big_def filter_models_def list_all_iff
      split: sum.splits option.splits prod.splits)

lemma fresh_refs_step:
  assumes "process_metadata lib a st mf = Inr st'" "refs_canonical st"
  shows "\<forall>i. length (json_bundles st) \<le> i \<and> i < length (json_bundles st')
           \<longrightarrow> ref (json_bundles st' ! i) \<notin> ref ` set (json_bundles st)"
  using assms(1)
proof (cases rule: process_metadata_Inr)
  case (update meta r i b')
  then show ?thesis by auto
next
  case (create meta r nb b')
  have rb: "ref b' = Some r"
    using create(4,5) by (simp add: update_bundle_frame new_bundle_ref)
  have "Some r \<notin> ref ` set (json_bundles st)"
  proof
    assume "Some r \<in> ref ` set (json_bundles st)"
    then obtain k where "k < length (json_bundles st)" "ref (json_bundles st ! k) = Some r"
      by (metis (no_types, lifting) image_iff in_set_conv_nth)
    then obtain j where "ref_to_bundle st r = Some j"
      using assms(2) by (fastforce simp: refs_canonical_def)
    then show False using create(3) by simp
  qed
  then show ?thesis
    using create(6) rb by (auto simp: nth_append)
qed

lemma same_ref_process_all:
  assumes "process_all lib a st mfs = Inr st'"
  shows "grown_from (\<lambda>b0 b. ref b = ref b0) (\<lambda>_. True) (json_bundles st) (json_bundles st')"
  using assms
  by (rule grown_from_process_all) (simp_all add: update_bundle_frame grown_from_refl)

lemma fresh_refs_process_all:
  assumes "process_all lib a st mfs = Inr st'" "refs_canonical st"
  shows "\<forall>i. length (json_bundles st) \<le> i \<and> i < length (json_bundles st')
           \<longrightarrow> ref (json_bundles st' ! i) \<notin> ref ` set (json_bundles st)"
  using assms
proof (induction mfs arbitrary: st)
  case Nil
  then show ?case by simp
next
  case (Cons mf mfs)
  from Cons.prems(1) obtain st1 where 1: "process_metadata lib a st mf = Inr st1"
    and 2: "process_all lib a st1 mfs = Inr st'"
    by (auto split: sum.splits)
  have c1: "refs_canonical st1"
    using 1 Cons.prems(2) by (rule refs_canonical_step)
  have ih: "\<forall>i. length (json_bundles st1) \<le> i \<and> i < length (json_bundles st')
           \<longrightarrow> ref (json_bundles st' ! i) \<notin> ref ` set (json_bundles st1)"
    using 2 c1 by (rule Cons.IH)
  have f1: "\<forall>i. length (json_bundles st) \<le> i \<and> i < length (json_bundles st1)
           \<longrightarrow> ref (json_bundles st1 ! i) \<notin> ref ` set (json_bundles st)"
    using 1 Cons.prems(2) by (rule fresh_refs_step)
  have "process_all lib a st [mf] = Inr st1" using 1 by simp
  then have g1: "length (json_bundles st) \<le> length (json_bundles st1)"
    "\<And>i. i < length (json_bundles st) \<Longrightarrow> ref (json_bundles st1 ! i) = ref (json_bundles st ! i)"
    using same_ref_process_all by (fastforce simp: grown_from_nth)+
  have g2: "length (json_bundles st1) \<le> length (json_bundles st')"
    "\<And>i. i < length (json_bundles st1) \<Longrightarrow> ref (json_bundles st' ! i) = ref (json_bundles st1 ! i)"
    using same_ref_process_all [OF 2] by (simp_all add: grown_from_nth)
  have sub: "ref ` set (json_bundles st) \<subseteq> ref ` set (json_bundles st1)"
  proof
    fix x assume "x \<in> ref ` set (json_bundles st)"
    then obtain k where "k < length (json_bundles st)" "x = ref (json_bundles st ! k)"
      by (metis (no_types, lifting) image_iff in_set_conv_nth)
    then have "x = ref (json_bundles st1 ! k)" "k < length (json_bundles st1)"
      using g1 by auto
    then show "x \<in> ref ` set (json_bundles st1)" by auto
  qed
  show ?case
  proof (intro allI impI)
    fix i assume i: "length (json_bundles st) \<le> i \<and> i < length (json_bundles st')"
    show "ref (json_bundles st' ! i) \<notin> ref ` set (json_bundles st)"
    proof (cases "i < length (json_bundles st1)")
      case True
      then have "ref (json_bundles st' ! i) = ref (json_bundles st1 ! i)" by (rule g2(2))
      then show ?thesis using f1 i True by simp
    next
      case False
      then have "ref (json_bundles st' ! i) \<notin> ref ` set (json_bundles st1)"
        using ih i by simp
      then show ?thesis using sub by blast
    qed
  qed
qed

lemma fresh_refs_merge:
  assumes "merge lib a bs mfs = Inr bs'"
  shows "\<forall>i. length bs \<le> i \<and> i < length bs' \<longrightarrow> ref (bs' ! i) \<notin> ref ` set bs"
  using assms
proof (cases rule: merge_Inr)
  case (1 m st)
  from fresh_refs_process_all [OF 1(2) 1(4)] 1(3) show ?thesis by simp
qed

text \<open>What the post-processing leaves of each bundle.\<close>

lemma set_min_version_set:
  "b' \<in> set (set_min_version a bs) \<Longrightarrow>
     \<exists>b \<in> set bs. ref b' = ref b \<and> models b' = models b \<and> short_name b' = short_name b
        \<and> display_name b' = display_name b"
  by (auto simp: set_min_version_def split: option.splits)

lemma sort_by_date_set:
  "b' \<in> set (sort_by_date strptime bs) \<Longrightarrow>
     \<exists>b \<in> set bs. ref b' = ref b \<and> models b' = models b \<and> short_name b' = short_name b
        \<and> display_name b' = display_name b"
proof -
  assume "b' \<in> set (sort_by_date strptime bs)"
  then obtain i b where "(i, b) \<in> set (enumerate 0 (sort_key (bundle_sort_key strptime) bs))"
    "b' = b\<lparr>index := Some (int i)\<rparr>"
    by (auto simp: sort_by_date_def)
  moreover from this(1) have "b \<in> set bs"
    using nth_mem [of i "sort_key (bundle_sort_key strptime) bs"]
    by (simp add: in_set_enumerate_eq)
  ultimately show ?thesis by auto
qed

lemma post_process_set:
  assumes "b' \<in> set (post_process strptime a bs)"
  shows "\<exists>b \<in> set bs. ref b' = ref b \<and> models b' = models b \<and> short_name b' = short_name b
        \<and> display_name b' = display_name b"
proof (cases "arg_sort_by_date a")
  case True
  then have "b' \<in> set (sort_by_date strptime (set_min_version a bs))"
    using assms by (simp add: post_process_def)
  then obtain b1 where "b1 \<in> set (set_min_version a bs)" "ref b' = ref b1"
    "models b' = models b1" "short_name b' = short_name b1" "display_name b' = display_name b1"
    using sort_by_date_set by blast
  then show ?thesis using set_min_version_set [of b1 a bs] by auto
next
  case False
  then show ?thesis
    using assms set_min_version_set [of b' a bs] by (simp add: post_process_def)
qed


text \<open>
  Claim C1. In the manifest that a run writes, a bundle either stems from a bundle of the
  loaded manifest, and then each of its big models is the one the loaded bundle had in
  that slot, or it has a ref that the loaded manifest did not have, and then none of its
  models is big. In the update phase a model is left as it is or is overwritten from a
  descriptor model of its type that is not big.
\<close>

theorem big_models_excluded:
  assumes "main lib a w = Inr m'"
  shows "(\<exists>m bs bs'. load (manifest_file w) = Inr m \<and> bundles m = Some bs
       \<and> bundles m' = Some bs'
       \<and> (\<forall>b' \<in> set bs'.
             (\<exists>b0 \<in> set bs. no_big_written b0 b')
             \<or> (ref b' \<notin> ref ` set bs \<and> all_not_big b')))
     \<and> (\<forall>meta fld b b1 ms cs.
           update_bundle lib a meta fld b = Inr b1 \<and> models b = Some ms
           \<and> meta_models meta = Some cs \<longrightarrow>
           (\<exists>ms1. models b1 = Some ms1 \<and>
              list_all2
                (\<lambda>x x1. x1 = x
                   \<or> (\<exists>c \<in> set cs. \<not> is_big c \<and> model_type c = model_type x
                        \<and> x1 = overwrite_model (recompiled_dir_name a) fld c x))
                ms ms1))"
proof (intro conjI allI impI)
  from assms show "\<exists>m bs bs'. load (manifest_file w) = Inr m \<and> bundles m = Some bs
       \<and> bundles m' = Some bs'
       \<and> (\<forall>b' \<in> set bs'.
             (\<exists>b0 \<in> set bs. no_big_written b0 b')
             \<or> (ref b' \<notin> ref ` set bs \<and> all_not_big b'))"
  proof (cases rule: main_Inr)
    case (1 m bs bs1)
    have g: "grown_from no_big_written all_not_big bs bs1"
      using 1(3)
      by (rule grown_from_merge)
        (simp_all add: no_big_written_refl no_big_written_update all_not_big_update
          all_not_big_new)
    have f: "\<forall>i. length bs \<le> i \<and> i < length bs1 \<longrightarrow> ref (bs1 ! i) \<notin> ref ` set bs"
      using 1(3) by (rule fresh_refs_merge)
    have "(\<exists>b0 \<in> set bs. no_big_written b0 b') \<or> (ref b' \<notin> ref ` set bs \<and> all_not_big b')"
      if "b' \<in> set (post_process (py_strptime lib) a bs1)" for b'
    proof -
      from post_process_set [OF that] obtain b1 where b1: "b1 \<in> set bs1"
        and e: "ref b' = ref b1" "models b' = models b1"
        by blast
      from b1 obtain i where i: "i < length bs1" "b1 = bs1 ! i"
        by (metis in_set_conv_nth)
      show ?thesis
      proof (cases "i < length bs")
        case True
        then have "no_big_written (bs ! i) b1"
          using g i by (simp add: grown_from_nth)
        then have "no_big_written (bs ! i) b'"
          unfolding no_big_written_def e .
        then show ?thesis using True by auto
      next
        case False
        then have "all_not_big b1" "ref b1 \<notin> ref ` set bs"
          using g f i by (simp_all add: grown_from_nth)
        then have "all_not_big b'" "ref b' \<notin> ref ` set bs"
          unfolding all_not_big_def e .
        then show ?thesis by simp
      qed
    qed
    moreover have "bundles m' = Some (post_process (py_strptime lib) a bs1)"
      using 1(4) by (simp split: option.splits)
    ultimately show ?thesis using 1(1,2) by blast
  qed
next
  fix meta fld b b1 ms cs
  assume h: "update_bundle lib a meta fld b = Inr b1 \<and> models b = Some ms
           \<and> meta_models meta = Some cs"
  let ?f = "update_model (filter_models cs) fld (recompiled_dir_name a)"
  have "models b1 = Some (map ?f ms)"
    using h update_bundle_models_eq [of lib a meta fld b b1 cs] by simp
  moreover have "list_all2
                (\<lambda>x x1. x1 = x
                   \<or> (\<exists>c \<in> set cs. \<not> is_big c \<and> model_type c = model_type x
                        \<and> x1 = overwrite_model (recompiled_dir_name a) fld c x))
                ms (map ?f ms)"
    using update_model_cases [of cs fld "recompiled_dir_name a"]
    by (simp add: list_all2_conv_all_nth)
  ultimately show "\<exists>ms1. models b1 = Some ms1 \<and>
              list_all2
                (\<lambda>x x1. x1 = x
                   \<or> (\<exists>c \<in> set cs. \<not> is_big c \<and> model_type c = model_type x
                        \<and> x1 = overwrite_model (recompiled_dir_name a) fld c x))
                ms ms1"
    by blast
qed

lemma example_main_new_bundle:
  "length (the (bundles (projr (main example_library example_args example_world)))) = 3"
  "ref (the (bundles (projr (main example_library example_args example_world))) ! 2) = Some ''r3''"
  by code_simp+

theorem big_models_excluded_witness:
  "\<exists>m' bs'. main example_library example_args example_world = Inr m'
     \<and> bundles m' = Some bs' \<and> length bs' = 3
     \<and> ref (bs' ! 2) = Some ''r3'' \<and> all_not_big (bs' ! 2)"
proof -
  obtain m' where m: "main example_library example_args example_world = Inr m'"
    using example_main_succeeds by blast
  from big_models_excluded [OF m] obtain bs' where
    b: "bundles m' = Some bs'"
    and d: "\<forall>b' \<in> set bs'.
             (\<exists>b0 \<in> set (the (bundles example_manifest)). no_big_written b0 b')
             \<or> (ref b' \<notin> ref ` set (the (bundles example_manifest)) \<and> all_not_big b')"
    by (auto simp: example_world_def)
  have l: "length bs' = 3" and r: "ref (bs' ! 2) = Some ''r3''"
    using example_main_new_bundle m b by simp_all
  have "bs' ! 2 \<in> set bs'" using l by simp
  moreover have "\<not> (\<exists>b0 \<in> set (the (bundles example_manifest)). no_big_written b0 (bs' ! 2))"
    using r by (simp add: example_manifest_def example_bundle_def no_big_written_def)
  ultimately have "all_not_big (bs' ! 2)" using d by blast
  then show ?thesis using m b l r by blast
qed

section \<open>Upper-case short names\<close>

lemma is_upper_case_upper: "upper_idempotent lib \<Longrightarrow> is_upper_case lib (py_upper lib s)"
  by (simp add: is_upper_case_def upper_idempotent_def)

lemma ascii_upper_char_idem: "ascii_upper_char (ascii_upper_char c) = ascii_upper_char c"
  by (auto simp: ascii_upper_char_def Let_def)

lemma example_upper_idempotent: "upper_idempotent example_library"
  by (simp add: upper_idempotent_def example_library_def ascii_upper_def ascii_upper_char_idem)

lemma load_Inr: "load f = Inr v \<longleftrightarrow> f = Json v"
  by (cases f) auto

lemma descriptor_refs_iff:
  "x \<in> descriptor_refs mfs \<longleftrightarrow>
     (\<exists>mf meta. mf \<in> set mfs \<and> snd mf = Json meta \<and> x = meta_ref meta)"
  by (induction mfs rule: descriptor_refs.induct) auto

lemma build_ref_to_bundle_succeeds:
  "(\<exists>m'. build_ref_to_bundle i bs m = Inr m') \<longleftrightarrow> (\<forall>b \<in> set bs. ref b \<noteq> None)"
  by (induction bs arbitrary: i m) (auto split: option.splits)

lemma merge_no_descriptors:
  "\<forall>b \<in> set bs. ref b \<noteq> None \<Longrightarrow> merge lib a bs [] = Inr bs"
  using build_ref_to_bundle_succeeds [of 0 bs Map.empty]
  by (auto simp: merge_def)

lemma short_name_upper_update:
  "upper_idempotent lib \<Longrightarrow> update_bundle lib a meta fld b = Inr b' \<Longrightarrow>
     short_name_upper lib b'"
  by (auto dest!: update_bundle_Inr simp: short_name_upper_def is_upper_case_upper)

lemma upper_kept_process_all:
  assumes "process_all lib a st mfs = Inr st'" and "upper_idempotent lib"
  shows "grown_from (\<lambda>b0 b. short_name_upper lib b0 \<longrightarrow> short_name_upper lib b) (\<lambda>_. True)
           (json_bundles st) (json_bundles st')"
  using assms(1)
  by (rule grown_from_process_all)
    (simp_all add: short_name_upper_update [OF assms(2)] grown_from_refl)

lemma ref_to_bundle_kept_step:
  assumes "process_metadata lib a st mf = Inr st'" "ref_to_bundle st r = Some i"
  shows "ref_to_bundle st' r = Some i"
  using assms(1)
proof (cases rule: process_metadata_Inr)
  case (update meta r' i' b')
  then show ?thesis using assms(2) by simp
next
  case (create meta r' nb b')
  then show ?thesis using assms(2) by auto
qed

lemma ref_to_bundle_kept:
  "process_all lib a st mfs = Inr st' \<Longrightarrow> ref_to_bundle st r = Some i \<Longrightarrow>
     ref_to_bundle st' r = Some i"
  by (induction mfs arbitrary: st) (auto split: sum.splits dest: ref_to_bundle_kept_step)

lemma matched_upper_step:
  assumes "process_metadata lib a st mf = Inr st'" "refs_canonical st"
    and idem: "upper_idempotent lib"
  shows "\<exists>meta r i. snd mf = Json meta \<and> meta_ref meta = Some r
           \<and> ref_to_bundle st' r = Some i \<and> i < length (json_bundles st')
           \<and> short_name_upper lib (json_bundles st' ! i)"
  using assms(1)
proof (cases rule: process_metadata_Inr)
  case (update meta r i b')
  have "i < length (json_bundles st)"
    using assms(2) update(3) by (simp add: refs_canonical_def refs_valid_def)
  moreover have "short_name_upper lib b'"
    using idem update(4) by (rule short_name_upper_update)
  ultimately show ?thesis
    using update by (simp add: load_Inr)
next
  case (create meta r nb b')
  have "short_name_upper lib b'"
    using idem create(5) by (rule short_name_upper_update)
  then show ?thesis
    using create by (simp add: load_Inr)
qed

lemma matched_upper_process_all:
  assumes "process_all lib a st mfs = Inr st'" "refs_canonical st" "mf \<in> set mfs"
    and idem: "upper_idempotent lib"
  shows "\<exists>meta r i. snd mf = Json meta \<and> meta_ref meta = Some r
           \<and> ref_to_bundle st' r = Some i \<and> i < length (json_bundles st')
           \<and> short_name_upper lib (json_bundles st' ! i)"
  using assms
proof (induction mfs arbitrary: st)
  case Nil
  then show ?case by simp
next
  case (Cons x mfs)
  from Cons.prems(1) obtain st1 where 1: "process_metadata lib a st x = Inr st1"
    and 2: "process_all lib a st1 mfs = Inr st'"
    by (auto split: sum.splits)
  have c1: "refs_canonical st1"
    using 1 Cons.prems(2) by (rule refs_canonical_step)
  show ?case
  proof (cases "mf \<in> set mfs")
    case True
    with 2 c1 show ?thesis using idem by (intro Cons.IH)
  next
    case False
    then have "mf = x" using Cons.prems(3) by simp
    with matched_upper_step [OF 1 Cons.prems(2) idem] obtain meta r i where
      m: "snd mf = Json meta" "meta_ref meta = Some r" "ref_to_bundle st1 r = Some i"
      "i < length (json_bundles st1)" "short_name_upper lib (json_bundles st1 ! i)"
      by blast
    have "ref_to_bundle st' r = Some i"
      using 2 m(3) by (rule ref_to_bundle_kept)
    moreover have "i < length (json_bundles st')" "short_name_upper lib (json_bundles st' ! i)"
      using upper_kept_process_all [OF 2 idem] m(4,5) by (auto simp: grown_from_nth)
    ultimately show ?thesis using m(1,2) by blast
  qed
qed

lemma distinct_refs_step:
  assumes "process_metadata lib a st mf = Inr st'" "refs_canonical st"
    "distinct (map ref (json_bundles st))"
  shows "distinct (map ref (json_bundles st'))"
  using assms(1)
proof (cases rule: process_metadata_Inr)
  case (update meta r i b')
  have "ref b' = ref (json_bundles st ! i)"
    using update(4) by (simp add: update_bundle_frame)
  then have "map ref ((json_bundles st)[i := b']) = map ref (json_bundles st)"
    by (metis list_update_beyond list_update_id map_update not_le_imp_less)
  then show ?thesis using assms(3) update(5) by simp
next
  case (create meta r nb b')
  have "ref b' = Some r"
    using create(4,5) by (simp add: update_bundle_frame new_bundle_ref)
  moreover have "ref (json_bundles st' ! length (json_bundles st)) \<notin> ref ` set (json_bundles st)"
    using fresh_refs_step [OF assms(1,2), rule_format, of "length (json_bundles st)"] create(6)
    by simp
  ultimately show ?thesis
    using assms(3) create(6) by simp
qed

lemma distinct_refs_process_all:
  "process_all lib a st mfs = Inr st' \<Longrightarrow> refs_canonical st \<Longrightarrow>
     distinct (map ref (json_bundles st)) \<Longrightarrow> distinct (map ref (json_bundles st'))"
proof (induction mfs arbitrary: st)
  case Nil
  then show ?case by simp
next
  case (Cons x mfs)
  from Cons.prems(1) obtain st1 where 1: "process_metadata lib a st x = Inr st1"
    and 2: "process_all lib a st1 mfs = Inr st'"
    by (auto split: sum.splits)
  show ?case
    using 2 refs_canonical_step [OF 1 Cons.prems(2)]
      distinct_refs_step [OF 1 Cons.prems(2,3)]
    by (rule Cons.IH)
qed

lemma matched_upper_merge:
  assumes "merge lib a bs mfs = Inr bs'" and idem: "upper_idempotent lib"
  shows "(\<forall>mf \<in> set mfs. \<exists>meta r b'. snd mf = Json meta \<and> meta_ref meta = Some r
            \<and> b' \<in> set bs' \<and> ref b' = Some r \<and> short_name_upper lib b')
     \<and> (distinct (map ref bs) \<longrightarrow>
          (\<forall>b' \<in> set bs'. ref b' \<in> descriptor_refs mfs \<longrightarrow> short_name_upper lib b'))"
  using assms(1)
proof (cases rule: merge_Inr)
  case (1 m st)
  have v: "\<And>r i. ref_to_bundle st r = Some i \<Longrightarrow>
             i < length (json_bundles st) \<and> ref (json_bundles st ! i) = Some r"
    using 1(5) by (simp add: refs_canonical_def refs_valid_def)
  have first: "\<exists>meta r i. snd mf = Json meta \<and> meta_ref meta = Some r
            \<and> i < length bs' \<and> ref (bs' ! i) = Some r \<and> short_name_upper lib (bs' ! i)"
    if "mf \<in> set mfs" for mf
  proof -
    from matched_upper_process_all [OF 1(2) 1(4) that idem] obtain meta r i where
      m: "snd mf = Json meta" "meta_ref meta = Some r" "ref_to_bundle st r = Some i"
      "i < length (json_bundles st)" "short_name_upper lib (json_bundles st ! i)"
      by blast
    then show ?thesis using v [OF m(3)] 1(3) by blast
  qed
  have "\<forall>mf \<in> set mfs. \<exists>meta r b'. snd mf = Json meta \<and> meta_ref meta = Some r
            \<and> b' \<in> set bs' \<and> ref b' = Some r \<and> short_name_upper lib b'"
  proof
    fix mf assume "mf \<in> set mfs"
    from first [OF this] obtain meta r i where
      "snd mf = Json meta" "meta_ref meta = Some r" "i < length bs'"
      "ref (bs' ! i) = Some r" "short_name_upper lib (bs' ! i)"
      by blast
    moreover from this(3) have "bs' ! i \<in> set bs'" by simp
    ultimately show "\<exists>meta r b'. snd mf = Json meta \<and> meta_ref meta = Some r
            \<and> b' \<in> set bs' \<and> ref b' = Some r \<and> short_name_upper lib b'"
      by blast
  qed
  moreover have "\<forall>b' \<in> set bs'. ref b' \<in> descriptor_refs mfs \<longrightarrow> short_name_upper lib b'"
    if d: "distinct (map ref bs)"
  proof (intro ballI impI)
    fix b' assume b': "b' \<in> set bs'" and "ref b' \<in> descriptor_refs mfs"
    then obtain meta mf where mf: "mf \<in> set mfs" "snd mf = Json meta" "ref b' = meta_ref meta"
      by (auto simp: descriptor_refs_iff)
    from first [OF mf(1)] mf(2,3) obtain i where
      i: "i < length bs'" "ref (bs' ! i) = ref b'" "short_name_upper lib (bs' ! i)"
      by auto
    from b' obtain k where k: "k < length bs'" "b' = bs' ! k"
      by (metis in_set_conv_nth)
    have "distinct (map ref bs')"
      using distinct_refs_process_all [OF 1(2) 1(4)] d 1(3) by simp
    then have "k = i"
      using i(1,2) k nth_eq_iff_index_eq [of "map ref bs'" k i] by simp
    then show "short_name_upper lib b'" using i(3) k(2) by simp
  qed
  ultimately show ?thesis by blast
qed


lemma set_min_version_set_conv:
  "b \<in> set bs \<Longrightarrow>
     \<exists>b' \<in> set (set_min_version a bs). ref b' = ref b \<and> short_name b' = short_name b"
  by (cases "arg_set_min_version a") (auto simp: set_min_version_def intro!: bexI)

lemma sort_by_date_set_conv:
  assumes "b \<in> set bs"
  shows "\<exists>b' \<in> set (sort_by_date strptime bs). ref b' = ref b \<and> short_name b' = short_name b"
proof -
  let ?xs = "sort_key (bundle_sort_key strptime) bs"
  from assms have "b \<in> set ?xs" by simp
  then obtain i where i: "i < length ?xs" "b = ?xs ! i"
    by (metis in_set_conv_nth)
  then have "(i, b) \<in> set (enumerate 0 ?xs)"
    by (simp add: in_set_enumerate_eq)
  then have "b\<lparr>index := Some (int i)\<rparr> \<in> set (sort_by_date strptime bs)"
    unfolding sort_by_date_def by force
  then show ?thesis
    by (intro bexI [of _ "b\<lparr>index := Some (int i)\<rparr>"]) simp_all
qed

lemma post_process_set_conv:
  assumes "b \<in> set bs"
  shows "\<exists>b' \<in> set (post_process strptime a bs). ref b' = ref b \<and> short_name b' = short_name b"
proof -
  from set_min_version_set_conv [OF assms] obtain b1 where
    b1: "b1 \<in> set (set_min_version a bs)" "ref b1 = ref b" "short_name b1 = short_name b"
    by blast
  show ?thesis
  proof (cases "arg_sort_by_date a")
    case True
    from sort_by_date_set_conv [OF b1(1)] obtain b' where
      "b' \<in> set (sort_by_date strptime (set_min_version a bs))"
      "ref b' = ref b1" "short_name b' = short_name b1"
      by blast
    then show ?thesis using True b1 by (auto simp: post_process_def)
  next
    case False
    then show ?thesis using b1 by (auto simp: post_process_def)
  qed
qed

text \<open>
  Claim C2, as the code has it. A name is upper case when \<open>str.upper\<close> leaves it as it
  is, and \<open>str.upper\<close> applied twice is \<open>str.upper\<close> applied once. After a run, for
  every descriptor that the run has found the written manifest has a bundle with the ref
  of the descriptor and an upper-case \<open>short_name\<close>; and when the refs of the loaded
  manifest are distinct, every bundle of the written manifest whose ref is the ref of a
  discovered descriptor has an upper-case \<open>short_name\<close>.
\<close>

theorem short_name_upper_when_matched:
  assumes "main lib a w = Inr m'" and "upper_idempotent lib"
  shows "\<exists>m bs bs'. load (manifest_file w) = Inr m \<and> bundles m = Some bs
     \<and> bundles m' = Some bs'
     \<and> (\<forall>mf \<in> set (metadata_files w).
           \<exists>meta r b'. snd mf = Json meta \<and> meta_ref meta = Some r
             \<and> b' \<in> set bs' \<and> ref b' = Some r \<and> short_name_upper lib b')
     \<and> (distinct (map ref bs) \<longrightarrow>
          (\<forall>b' \<in> set bs'.
             ref b' \<in> descriptor_refs (metadata_files w) \<longrightarrow> short_name_upper lib b'))"
  using assms
proof (cases rule: main_Inr)
  case (1 m bs bs1)
  note mm = matched_upper_merge [OF 1(3) assms(2)]
  have p: "bundles m' = Some (post_process (py_strptime lib) a bs1)"
    using 1(4) by (simp split: option.splits)
  have "\<forall>mf \<in> set (metadata_files w).
           \<exists>meta r b'. snd mf = Json meta \<and> meta_ref meta = Some r
             \<and> b' \<in> set (post_process (py_strptime lib) a bs1) \<and> ref b' = Some r
             \<and> short_name_upper lib b'"
  proof
    fix mf assume "mf \<in> set (metadata_files w)"
    with mm obtain meta r b1 where
      b1: "snd mf = Json meta" "meta_ref meta = Some r" "b1 \<in> set bs1" "ref b1 = Some r"
      "short_name_upper lib b1"
      by blast
    from post_process_set_conv [OF b1(3)] obtain b' where
      "b' \<in> set (post_process (py_strptime lib) a bs1)" "ref b' = ref b1"
      "short_name b' = short_name b1"
      by blast
    then show "\<exists>meta r b'. snd mf = Json meta \<and> meta_ref meta = Some r
             \<and> b' \<in> set (post_process (py_strptime lib) a bs1) \<and> ref b' = Some r
             \<and> short_name_upper lib b'"
      using b1 by (auto simp: short_name_upper_def)
  qed
  moreover have "\<forall>b' \<in> set (post_process (py_strptime lib) a bs1).
             ref b' \<in> descriptor_refs (metadata_files w) \<longrightarrow> short_name_upper lib b'"
    if d: "distinct (map ref bs)"
  proof (intro ballI impI)
    fix b' assume b': "b' \<in> set (post_process (py_strptime lib) a bs1)"
      and r: "ref b' \<in> descriptor_refs (metadata_files w)"
    from post_process_set [OF b'] obtain b1 where
      b1: "b1 \<in> set bs1" "ref b' = ref b1" "short_name b' = short_name b1"
      by blast
    then have "short_name_upper lib b1" using mm d r by simp
    then show "short_name_upper lib b'"
      using b1(3) by (simp add: short_name_upper_def)
  qed
  ultimately show ?thesis using 1(1,2) p by blast
qed

lemma example_main_first_bundle:
  "ref (the (bundles (projr (main example_library example_args example_world))) ! 0) = Some ''r1''"
  "short_name (the (bundles (projr (main example_library example_args example_world))) ! 0)
     = Some ''RAV1''"
  by code_simp+

theorem short_name_upper_when_matched_witness:
  "\<exists>m' bs'. main example_library example_args example_world = Inr m'
     \<and> bundles m' = Some bs' \<and> distinct (map ref (the (bundles example_manifest)))
     \<and> ref (bs' ! 0) = Some ''r1'' \<and> short_name (bs' ! 0) = Some ''RAV1''
     \<and> short_name_upper example_library (bs' ! 0)"
proof -
  obtain m' where m: "main example_library example_args example_world = Inr m'"
    using example_main_succeeds by blast
  have d: "distinct (map ref (the (bundles example_manifest)))"
    by (simp add: example_manifest_def example_bundle_def)
  from short_name_upper_when_matched [OF m example_upper_idempotent] d obtain bs' where
    b: "bundles m' = Some bs'"
    and u: "\<forall>b' \<in> set bs'.
             ref b' \<in> descriptor_refs (metadata_files example_world) \<longrightarrow> short_name_upper example_library b'"
    by (auto simp: example_world_def)
  have l: "length bs' = 3" and r: "ref (bs' ! 0) = Some ''r1''"
    and s: "short_name (bs' ! 0) = Some ''RAV1''"
    using example_main_new_bundle example_main_first_bundle m b by simp_all
  have "Some ''r1'' \<in> descriptor_refs (metadata_files example_world)"
    by (simp add: example_world_def example_descriptor_def)
  moreover have "bs' ! 0 \<in> set bs'" using l by simp
  ultimately have "short_name_upper example_library (bs' ! 0)" using u r by simp
  then show ?thesis using m b d r s by blast
qed

text \<open>
  Claim C2, as it is stated, fails: a bundle whose ref matches no discovered descriptor is
  written with the \<open>short_name\<close> it was loaded with, upper case or not.
\<close>

theorem short_name_unmatched_counterexample:
  "main example_library example_args
     \<lparr>manifest_file = Json example_manifest, metadata_files = []\<rparr> = Inr example_manifest
   \<and> short_name (hd (the (bundles example_manifest))) = Some ''rav1''
   \<and> \<not> is_upper_case example_library ''rav1''"
proof -
  have "merge example_library example_args (the (bundles example_manifest)) [] = Inr (the (bundles example_manifest))"
    by (rule merge_no_descriptors) (simp add: example_manifest_def example_bundle_def)
  then have "main example_library example_args
     \<lparr>manifest_file = Json example_manifest, metadata_files = []\<rparr> = Inr example_manifest"
    by (simp add: main_def post_process_def set_min_version_def example_args_def
        example_manifest_def)
  moreover have "short_name (hd (the (bundles example_manifest))) = Some ''rav1''"
    by (simp add: example_manifest_def example_bundle_def)
  moreover have "\<not> is_upper_case example_library ''rav1''"
    by code_simp
  ultimately show ?thesis by simp
qed

section \<open>Generation and selector version: properties\<close>

lemma max_by_ge_start: "k x \<le> k (max_by k x xs)"
proof (induction xs arbitrary: x)
  case Nil
  then show ?case by simp
next
  case (Cons y ys)
  have "k x \<le> k (if k y > k x then y else x)" by simp
  also have "\<dots> \<le> k (max_by k (if k y > k x then y else x) ys)" by (rule Cons.IH)
  finally show ?case by simp
qed

text \<open>\<open>max_by\<close> returns the first of the elements with the greatest key.\<close>

lemma max_by_first_greatest:
  "\<exists>pre post. x # xs = pre @ max_by k x xs # post
     \<and> (\<forall>y \<in> set pre. k y < k (max_by k x xs))
     \<and> (\<forall>y \<in> set post. k y \<le> k (max_by k x xs))"
proof (induction xs arbitrary: x)
  case Nil
  show ?case by (intro exI [of _ "[]"]) simp
next
  case (Cons y ys)
  show ?case
  proof (cases "k y > k x")
    case True
    define m where "m = max_by k y ys"
    have m: "max_by k x (y # ys) = m" using True by (simp add: m_def)
    from Cons.IH [of y] obtain pre post where d: "y # ys = pre @ m # post"
      and lt: "\<forall>z \<in> set pre. k z < k m" and le: "\<forall>z \<in> set post. k z \<le> k m"
      unfolding m_def by blast
    have "x # y # ys = (x # pre) @ m # post" using d by simp
    moreover have "k x < k m"
      using True max_by_ge_start [of k y ys] by (simp add: m_def)
    ultimately show ?thesis
      unfolding m using lt le by (intro exI [of _ "x # pre"] exI [of _ post]) simp
  next
    case False
    define m where "m = max_by k x ys"
    have m: "max_by k x (y # ys) = m" using False by (simp add: m_def)
    from Cons.IH [of x] obtain pre post where d: "x # ys = pre @ m # post"
      and lt: "\<forall>z \<in> set pre. k z < k m" and le: "\<forall>z \<in> set post. k z \<le> k m"
      unfolding m_def by blast
    show ?thesis
    proof (cases pre)
      case Nil
      then have e: "m = x" "ys = post" using d by simp_all
      then have "x # y # ys = [] @ m # (y # post)" by simp
      moreover have "k y \<le> k m" using False e by simp
      ultimately show ?thesis
        unfolding m using le by (intro exI [of _ "[]"] exI [of _ "y # post"]) simp
    next
      case (Cons z pre')
      then have z: "z = x" "ys = pre' @ m # post" using d by simp_all
      then have "x # y # ys = (x # y # pre') @ m # post" by simp
      moreover have "k x < k m" using lt Cons z by simp
      moreover from this have "k y < k m" using False by simp
      ultimately show ?thesis
        unfolding m using lt le Cons
        by (intro exI [of _ "x # y # pre'"] exI [of _ post]) simp
    qed
  qed
qed

lemma filter_eq_appendD:
  "filter P xs = us @ m # vs \<Longrightarrow>
     \<exists>pre post. xs = pre @ m # post \<and> filter P pre = us \<and> filter P post = vs \<and> P m"
proof (induction xs arbitrary: us)
  case Nil
  then show ?case by simp
next
  case (Cons x xs)
  show ?case
  proof (cases "P x")
    case False
    then have "filter P xs = us @ m # vs" using Cons.prems by simp
    from Cons.IH [OF this] obtain pre post where
      "xs = pre @ m # post" "filter P pre = us" "filter P post = vs" "P m"
      by blast
    then show ?thesis
      using False by (intro exI [of _ "x # pre"] exI [of _ post]) simp
  next
    case True
    then have e: "x # filter P xs = us @ m # vs" using Cons.prems by simp
    show ?thesis
    proof (cases us)
      case Nil
      then have "x = m" "filter P xs = vs" using e by simp_all
      then show ?thesis
        using True Nil by (intro exI [of _ "[]"] exI [of _ xs]) simp
    next
      case (Cons u us')
      then have "u = x" "filter P xs = us' @ m # vs" using e by simp_all
      from Cons.IH [OF this(2)] obtain pre post where
        "xs = pre @ m # post" "filter P pre = us'" "filter P post = vs" "P m"
        by blast
      then show ?thesis
        using True Cons \<open>u = x\<close> by (intro exI [of _ "x # pre"] exI [of _ post]) simp
    qed
  qed
qed

lemma get_generation_and_selector_Inr:
  assumes "get_generation_and_selector sn bs = Inr (g, v)"
  shows "(\<forall>b \<in> set bs. short_name b \<noteq> None)
    \<and> ((\<forall>b \<in> set bs. \<not> is_candidate (name_prefix sn) b) \<longrightarrow> g = ''12'' \<and> v = ''12'')
    \<and> ((\<exists>b \<in> set bs. is_candidate (name_prefix sn) b) \<longrightarrow>
         (\<exists>pre c post. bs = pre @ c # post \<and> is_candidate (name_prefix sn) c
            \<and> (\<forall>c' \<in> set pre. is_candidate (name_prefix sn) c' \<longrightarrow> index_or_0 c' < index_or_0 c)
            \<and> (\<forall>c' \<in> set post. is_candidate (name_prefix sn) c' \<longrightarrow> index_or_0 c' \<le> index_or_0 c)
            \<and> generation c = Some g \<and> minimum_selector_version c = Some v))"
proof (cases "filter (is_candidate (name_prefix sn)) bs")
  case Nil
  then have "\<forall>b \<in> set bs. \<not> is_candidate (name_prefix sn) b"
    by (simp add: filter_empty_conv)
  then show ?thesis
    using assms Nil by (auto simp: get_generation_and_selector_def Let_def split: if_splits)
next
  case (Cons c cs)
  let ?P = "is_candidate (name_prefix sn)"
  let ?l = "max_by index_or_0 c cs"
  have s: "\<forall>b \<in> set bs. short_name b \<noteq> None"
    using assms by (auto simp: get_generation_and_selector_def Let_def split: if_splits)
  have gv: "g = the (generation ?l)" "v = the (minimum_selector_version ?l)"
    using assms Cons by (auto simp: get_generation_and_selector_def Let_def split: if_splits)
  from max_by_first_greatest [of c cs index_or_0] obtain us vs where
    d: "c # cs = us @ ?l # vs"
    and lt: "\<forall>y \<in> set us. index_or_0 y < index_or_0 ?l"
    and le: "\<forall>y \<in> set vs. index_or_0 y \<le> index_or_0 ?l"
    by blast
  from d Cons have "filter ?P bs = us @ ?l # vs" by simp
  from filter_eq_appendD [OF this] obtain pre post where
    b: "bs = pre @ ?l # post" and f: "filter ?P pre = us" "filter ?P post = vs" and l: "?P ?l"
    by blast
  have "\<forall>c' \<in> set pre. ?P c' \<longrightarrow> index_or_0 c' < index_or_0 ?l"
    using lt f(1) by auto
  moreover have "\<forall>c' \<in> set post. ?P c' \<longrightarrow> index_or_0 c' \<le> index_or_0 ?l"
    using le f(2) by auto
  moreover have "generation ?l = Some g" "minimum_selector_version ?l = Some v"
    using gv l by (auto simp: is_candidate_def)
  ultimately have "\<exists>pre c post. bs = pre @ c # post \<and> ?P c
            \<and> (\<forall>c' \<in> set pre. ?P c' \<longrightarrow> index_or_0 c' < index_or_0 c)
            \<and> (\<forall>c' \<in> set post. ?P c' \<longrightarrow> index_or_0 c' \<le> index_or_0 c)
            \<and> generation c = Some g \<and> minimum_selector_version c = Some v"
    using b l by blast
  moreover have "\<not> (\<forall>b \<in> set bs. \<not> ?P b)"
    using b l by auto
  ultimately show ?thesis using s by blast
qed

lemma new_bundle_Inr:
  assumes "new_bundle lib a bs meta r sn = Inr nb"
  obtains g v where "get_generation_and_selector sn bs = Inr (g, v)"
    "generation nb = Some (case arg_generation a of None \<Rightarrow> g | Some x \<Rightarrow> x)"
    "minimum_selector_version nb = Some (case arg_version a of None \<Rightarrow> v | Some x \<Rightarrow> x)"
    "short_name nb = Some sn" "index nb = Some (new_index bs)"
    "models nb = map_option filter_models (meta_models meta)"
  using assms
  by (auto simp: new_bundle_def split: sum.splits option.splits prod.splits)

lemma update_bundle_keeps_versions:
  "update_bundle lib a meta fld b = Inr b' \<Longrightarrow>
     generation b' = generation b \<and> minimum_selector_version b' = minimum_selector_version b"
  by (simp add: update_bundle_frame)

text \<open>
  Claim C6, as the code has it. When an iteration of the loop creates a bundle and neither
  \<open>--generation\<close> nor \<open>--version\<close> is given: the name is the \<open>short_name\<close> of the
  descriptor, or the name of its directory when it has none, after \<open>str.upper\<close>; the
  prefix is the longest leading run of ASCII letters of that name, or the whole name when
  it starts with no letter. The candidates are the bundles then in the manifest whose
  \<open>short_name\<close> starts with the prefix and that have a \<open>generation\<close> and a
  \<open>minimum_selector_version\<close>. The candidate with the greatest \<open>index\<close> (an absent
  \<open>index\<close> counting as 0; the first in the manifest among equals) gives the new
  bundle both values; when there is no candidate, both are "12".
\<close>

theorem new_bundle_inherits_generation:
  assumes "process_metadata lib a st (fld, Json meta) = Inr st'"
    and "meta_ref meta = Some r" and "ref_to_bundle st r = None"
    and "arg_generation a = None" and "arg_version a = None"
  shows "\<exists>nb sn p. json_bundles st' = json_bundles st @ [nb]
     \<and> sn = py_upper lib (case meta_short_name meta of None \<Rightarrow> fld | Some s \<Rightarrow> s)
     \<and> p = (if takeWhile is_ascii_letter sn = [] then sn else takeWhile is_ascii_letter sn)
     \<and> (\<forall>b \<in> set (json_bundles st). short_name b \<noteq> None)
     \<and> ((\<forall>b \<in> set (json_bundles st).
            \<not> (prefix p (the (short_name b)) \<and> generation b \<noteq> None
               \<and> minimum_selector_version b \<noteq> None))
          \<longrightarrow> generation nb = Some ''12'' \<and> minimum_selector_version nb = Some ''12'')
     \<and> ((\<exists>b \<in> set (json_bundles st).
            prefix p (the (short_name b)) \<and> generation b \<noteq> None
            \<and> minimum_selector_version b \<noteq> None)
          \<longrightarrow> (\<exists>pre c post. json_bundles st = pre @ c # post
                 \<and> prefix p (the (short_name c)) \<and> generation c \<noteq> None
                 \<and> minimum_selector_version c \<noteq> None
                 \<and> (\<forall>c' \<in> set pre.
                       prefix p (the (short_name c')) \<and> generation c' \<noteq> None
                       \<and> minimum_selector_version c' \<noteq> None
                       \<longrightarrow> index_or_0 c' < index_or_0 c)
                 \<and> (\<forall>c' \<in> set post.
                       prefix p (the (short_name c')) \<and> generation c' \<noteq> None
                       \<and> minimum_selector_version c' \<noteq> None
                       \<longrightarrow> index_or_0 c' \<le> index_or_0 c)
                 \<and> generation nb = generation c
                 \<and> minimum_selector_version nb = minimum_selector_version c))"
  using assms(1)
proof (cases rule: process_metadata_Inr)
  case (update meta' r' i b')
  then show ?thesis using assms(2,3) by simp
next
  case (create meta' r' nb b')
  let ?sn = "py_upper lib (case meta_short_name meta of None \<Rightarrow> fld | Some s \<Rightarrow> s)"
  let ?p = "if takeWhile is_ascii_letter ?sn = [] then ?sn else takeWhile is_ascii_letter ?sn"
  let ?bs = "json_bundles st"
  have meta': "meta' = meta" using create(1) by simp
  have p: "name_prefix ?sn = ?p" by (simp add: name_prefix_def)
  note c4 = create(4) [unfolded fst_conv meta']
  from c4 obtain g v where
    gs: "get_generation_and_selector ?sn ?bs = Inr (g, v)"
    and nb: "generation nb = Some g" "minimum_selector_version nb = Some v"
    using assms(4,5) by (auto elim!: new_bundle_Inr)
  have b': "generation b' = Some g" "minimum_selector_version b' = Some v"
    using update_bundle_keeps_versions [OF create(5)] nb by simp_all
  note gg = get_generation_and_selector_Inr [OF gs, unfolded p is_candidate_def]
  have 1: "\<forall>b \<in> set ?bs. short_name b \<noteq> None" using gg by blast
  have 2: "generation b' = Some ''12'' \<and> minimum_selector_version b' = Some ''12''"
    if "\<forall>b \<in> set ?bs. \<not> (prefix ?p (the (short_name b)) \<and> generation b \<noteq> None
               \<and> minimum_selector_version b \<noteq> None)"
    using that gg b' by simp
  have 3: "\<exists>pre c post. ?bs = pre @ c # post
                 \<and> prefix ?p (the (short_name c)) \<and> generation c \<noteq> None
                 \<and> minimum_selector_version c \<noteq> None
                 \<and> (\<forall>c' \<in> set pre.
                       prefix ?p (the (short_name c')) \<and> generation c' \<noteq> None
                       \<and> minimum_selector_version c' \<noteq> None
                       \<longrightarrow> index_or_0 c' < index_or_0 c)
                 \<and> (\<forall>c' \<in> set post.
                       prefix ?p (the (short_name c')) \<and> generation c' \<noteq> None
                       \<and> minimum_selector_version c' \<noteq> None
                       \<longrightarrow> index_or_0 c' \<le> index_or_0 c)
                 \<and> generation b' = generation c
                 \<and> minimum_selector_version b' = minimum_selector_version c"
    if "\<exists>b \<in> set ?bs. prefix ?p (the (short_name b)) \<and> generation b \<noteq> None
            \<and> minimum_selector_version b \<noteq> None"
  proof -
    from that gg obtain pre c post where "?bs = pre @ c # post"
      "prefix ?p (the (short_name c)) \<and> generation c \<noteq> None
         \<and> minimum_selector_version c \<noteq> None"
      "\<forall>c' \<in> set pre. prefix ?p (the (short_name c')) \<and> generation c' \<noteq> None
         \<and> minimum_selector_version c' \<noteq> None \<longrightarrow> index_or_0 c' < index_or_0 c"
      "\<forall>c' \<in> set post. prefix ?p (the (short_name c')) \<and> generation c' \<noteq> None
         \<and> minimum_selector_version c' \<noteq> None \<longrightarrow> index_or_0 c' \<le> index_or_0 c"
      "generation c = Some g" "minimum_selector_version c = Some v"
      by blast
    then show ?thesis
      using b' by (intro exI [of _ pre] exI [of _ c] exI [of _ post]) simp
  qed
  show ?thesis
    using create(6) 1 2 3 by (intro exI [of _ b'] exI [of _ ?sn] exI [of _ ?p]) simp
qed


lemma first_greatest_is_greatest:
  fixes k :: "'a \<Rightarrow> int"
  assumes "bs = pre @ c # post"
    and "\<forall>c' \<in> set pre. P c' \<longrightarrow> k c' < k c"
    and "\<forall>c' \<in> set post. P c' \<longrightarrow> k c' \<le> k c"
  shows "c \<in> set bs \<and> (\<forall>c' \<in> set bs. P c' \<longrightarrow> k c' \<le> k c)"
  using assms by auto

lemma example_prefix:
  "py_upper example_library ''RAV3'' = ''RAV3''"
  "takeWhile is_ascii_letter ''RAV3'' = ''RAV''"
  by code_simp+

lemma example_candidates:
  "prefix ''RAV'' (the (short_name example_rav0)) \<and> generation example_rav0 \<noteq> None
      \<and> minimum_selector_version example_rav0 \<noteq> None"
  "prefix ''RAV'' (the (short_name example_rav1)) \<and> generation example_rav1 \<noteq> None
      \<and> minimum_selector_version example_rav1 \<noteq> None"
  "prefix ''RAV'' (the (short_name example_rav2)) \<and> generation example_rav2 \<noteq> None
      \<and> minimum_selector_version example_rav2 \<noteq> None"
  "index_or_0 example_rav0 = 9" "index_or_0 example_rav1 = 2" "index_or_0 example_rav2 = 5"
  "generation example_rav0 = Some ''10''" "minimum_selector_version example_rav0 = Some ''10''"
  "generation example_rav2 = Some ''12''" "minimum_selector_version example_rav2 = Some ''12''"
  by (simp_all add: example_rav0_def example_rav1_def example_rav2_def example_bundle_def
      index_or_0_def)

text \<open>
  The example of the specification, RAV1 and RAV2 before a new RAV3, and the same with a
  bundle RAV0 of index 9 and generation "10" between them.
\<close>

theorem new_bundle_inherits_generation_witness:
  "(\<exists>st' nb.
      process_metadata example_library example_args
        \<lparr>json_bundles = [example_rav1, example_rav2],
         ref_to_bundle = [''r1'' \<mapsto> 0, ''r2'' \<mapsto> 1]\<rparr>
        (''RAV3 dir'', Json (example_descriptor ''r3'' ''RAV3'' [])) = Inr st'
      \<and> json_bundles st' = [example_rav1, example_rav2, nb]
      \<and> generation nb = Some ''12'' \<and> minimum_selector_version nb = Some ''12'')
   \<and> (\<exists>st' nb.
      process_metadata example_library example_args
        \<lparr>json_bundles = [example_rav1, example_rav0, example_rav2],
         ref_to_bundle = [''r1'' \<mapsto> 0, ''r0'' \<mapsto> 1, ''r2'' \<mapsto> 2]\<rparr>
        (''RAV3 dir'', Json (example_descriptor ''r3'' ''RAV3'' [])) = Inr st'
      \<and> json_bundles st' = [example_rav1, example_rav0, example_rav2, nb]
      \<and> generation nb = Some ''10'' \<and> minimum_selector_version nb = Some ''10'')"
proof -
  let ?meta = "example_descriptor ''r3'' ''RAV3'' []"
  let ?C = "\<lambda>b. prefix ''RAV'' (the (short_name b)) \<and> generation b \<noteq> None
            \<and> minimum_selector_version b \<noteq> None"
  have h: "meta_ref ?meta = Some ''r3''"
    "arg_generation example_args = None" "arg_version example_args = None"
    by (simp_all add: example_descriptor_def example_args_def)
  have sn: "meta_short_name ?meta = Some ''RAV3''"
    by (simp add: example_descriptor_def)
  have gen: "\<exists>nb pre c post. json_bundles st' = json_bundles st @ [nb]
      \<and> json_bundles st = pre @ c # post
      \<and> (\<forall>c' \<in> set pre. ?C c' \<longrightarrow> index_or_0 c' < index_or_0 c)
      \<and> (\<forall>c' \<in> set post. ?C c' \<longrightarrow> index_or_0 c' \<le> index_or_0 c)
      \<and> generation nb = generation c
      \<and> minimum_selector_version nb = minimum_selector_version c"
    if s: "process_metadata example_library example_args st (''RAV3 dir'', Json ?meta) = Inr st'"
      and n: "ref_to_bundle st ''r3'' = None" and c: "\<exists>b \<in> set (json_bundles st). ?C b"
    for st st'
  proof -
    from new_bundle_inherits_generation [OF s h(1) n h(2,3)]
    obtain nb sn p where nb: "json_bundles st' = json_bundles st @ [nb]"
      and sn': "sn = py_upper example_library
                  (case meta_short_name ?meta of None \<Rightarrow> ''RAV3 dir'' | Some s \<Rightarrow> s)"
      and p: "p = (if takeWhile is_ascii_letter sn = [] then sn
                   else takeWhile is_ascii_letter sn)"
      and r: "(\<exists>b \<in> set (json_bundles st).
            prefix p (the (short_name b)) \<and> generation b \<noteq> None
            \<and> minimum_selector_version b \<noteq> None)
          \<longrightarrow> (\<exists>pre c post. json_bundles st = pre @ c # post
                 \<and> prefix p (the (short_name c)) \<and> generation c \<noteq> None
                 \<and> minimum_selector_version c \<noteq> None
                 \<and> (\<forall>c' \<in> set pre.
                       prefix p (the (short_name c')) \<and> generation c' \<noteq> None
                       \<and> minimum_selector_version c' \<noteq> None
                       \<longrightarrow> index_or_0 c' < index_or_0 c)
                 \<and> (\<forall>c' \<in> set post.
                       prefix p (the (short_name c')) \<and> generation c' \<noteq> None
                       \<and> minimum_selector_version c' \<noteq> None
                       \<longrightarrow> index_or_0 c' \<le> index_or_0 c)
                 \<and> generation nb = generation c
                 \<and> minimum_selector_version nb = minimum_selector_version c)"
      by blast
    have "sn = ''RAV3''" using sn' sn by (simp add: example_prefix)
    then have pp: "p = ''RAV''" using p by (simp add: is_ascii_letter_def)
    from r [unfolded pp] c nb show ?thesis by blast
  qed
  have 1: "\<exists>st' nb.
      process_metadata example_library example_args
        \<lparr>json_bundles = [example_rav1, example_rav2],
         ref_to_bundle = [''r1'' \<mapsto> 0, ''r2'' \<mapsto> 1]\<rparr>
        (''RAV3 dir'', Json ?meta) = Inr st'
      \<and> json_bundles st' = [example_rav1, example_rav2, nb]
      \<and> generation nb = Some ''12'' \<and> minimum_selector_version nb = Some ''12''"
  proof -
    let ?st = "\<lparr>json_bundles = [example_rav1, example_rav2],
         ref_to_bundle = [''r1'' \<mapsto> 0, ''r2'' \<mapsto> 1]\<rparr>"
    have "case process_metadata example_library example_args ?st (''RAV3 dir'', Json ?meta) of
            Inl _ \<Rightarrow> False | Inr _ \<Rightarrow> True"
      by code_simp
    then obtain st' where
      s: "process_metadata example_library example_args ?st (''RAV3 dir'', Json ?meta) = Inr st'"
      by (auto split: sum.splits)
    have "\<exists>b \<in> set (json_bundles ?st). ?C b"
      using example_candidates(3) by simp
    from gen [OF s _ this] obtain nb pre c post where
      nb: "json_bundles st' = [example_rav1, example_rav2] @ [nb]"
      and d: "[example_rav1, example_rav2] = pre @ c # post"
      and lt: "\<forall>c' \<in> set pre. ?C c' \<longrightarrow> index_or_0 c' < index_or_0 c"
      and le: "\<forall>c' \<in> set post. ?C c' \<longrightarrow> index_or_0 c' \<le> index_or_0 c"
      and g: "generation nb = generation c"
        "minimum_selector_version nb = minimum_selector_version c"
      by auto
    from first_greatest_is_greatest [OF d lt le]
    have "c \<in> set [example_rav1, example_rav2]" "index_or_0 example_rav2 \<le> index_or_0 c"
      using example_candidates(3) by simp_all
    then have "c = example_rav2"
      using example_candidates(5,6) by auto
    then show ?thesis
      using s nb g example_candidates(9,10) by simp
  qed
  have 2: "\<exists>st' nb.
      process_metadata example_library example_args
        \<lparr>json_bundles = [example_rav1, example_rav0, example_rav2],
         ref_to_bundle = [''r1'' \<mapsto> 0, ''r0'' \<mapsto> 1, ''r2'' \<mapsto> 2]\<rparr>
        (''RAV3 dir'', Json ?meta) = Inr st'
      \<and> json_bundles st' = [example_rav1, example_rav0, example_rav2, nb]
      \<and> generation nb = Some ''10'' \<and> minimum_selector_version nb = Some ''10''"
  proof -
    let ?st = "\<lparr>json_bundles = [example_rav1, example_rav0, example_rav2],
         ref_to_bundle = [''r1'' \<mapsto> 0, ''r0'' \<mapsto> 1, ''r2'' \<mapsto> 2]\<rparr>"
    have "case process_metadata example_library example_args ?st (''RAV3 dir'', Json ?meta) of
            Inl _ \<Rightarrow> False | Inr _ \<Rightarrow> True"
      by code_simp
    then obtain st' where
      s: "process_metadata example_library example_args ?st (''RAV3 dir'', Json ?meta) = Inr st'"
      by (auto split: sum.splits)
    have "\<exists>b \<in> set (json_bundles ?st). ?C b"
      using example_candidates(1) by simp
    from gen [OF s _ this] obtain nb pre c post where
      nb: "json_bundles st' = [example_rav1, example_rav0, example_rav2] @ [nb]"
      and d: "[example_rav1, example_rav0, example_rav2] = pre @ c # post"
      and lt: "\<forall>c' \<in> set pre. ?C c' \<longrightarrow> index_or_0 c' < index_or_0 c"
      and le: "\<forall>c' \<in> set post. ?C c' \<longrightarrow> index_or_0 c' \<le> index_or_0 c"
      and g: "generation nb = generation c"
        "minimum_selector_version nb = minimum_selector_version c"
      by auto
    from first_greatest_is_greatest [OF d lt le]
    have "c \<in> set [example_rav1, example_rav0, example_rav2]"
      "index_or_0 example_rav0 \<le> index_or_0 c"
      using example_candidates(1) by simp_all
    then have "c = example_rav0"
      using example_candidates(4,5,6) by auto
    then show ?thesis
      using s nb g example_candidates(7,8) by simp
  qed
  from 1 2 show ?thesis by blast
qed

text \<open>
  Claim C6, as it is stated, fails: the prefix is not taken from the \<open>short_name\<close> of the
  descriptor as written. For the descriptor name \<open>rav3\<close> and the bundle RAV1 the written
  prefix \<open>rav\<close> matches no bundle and both values would be "12"; the run gives the new
  bundle the "11" of RAV1.
\<close>

theorem generation_prefix_counterexample:
  "(case main example_library example_args example_world_rav3 of
      Inl _ \<Rightarrow> False
    | Inr m \<Rightarrow>
        generation (the (bundles m) ! 1) = Some ''11''
        \<and> minimum_selector_version (the (bundles m) ! 1) = Some ''11'')
   \<and> claimed_generation_and_selector (example_descriptor ''r3'' ''rav3'' []) [example_rav1]
       = (''12'', ''12'')"
  by code_simp

section \<open>Sorting by date\<close>






























section \<open>Bad input ends the run\<close>

lemma new_bundle_needs_models:
  assumes "meta_models meta = None"
  shows "\<exists>e. new_bundle lib a bs meta r sn = Inl e"
  using assms by (simp add: new_bundle_def split: sum.splits prod.splits)

lemma update_bundle_needs_models:
  assumes "meta_models meta = None"
  shows "\<exists>e. update_bundle lib a meta fld b = Inl e"
  using assms by (simp add: update_bundle_def split: option.splits)








end
